theory Spec2Isabelle
  imports Complex_Main
begin

section \<open>Insertion-event detection in image stacks\<close>

text \<open>
  A shallow embedding of \<^verbatim>\<open>detect_insertions_slow\<close> from
  \<^verbatim>\<open>src/detect_insertion_events.py\<close>. The function is a chain of numpy and scipy
  calls, so the embedding has two layers: the array operations the function calls
  (indexing, subtraction, comparison, \<^verbatim>\<open>np.mean\<close>, \<^verbatim>\<open>np.std\<close>, \<^verbatim>\<open>np.where\<close>,
  \<^verbatim>\<open>ndimage.label\<close>), each modelled after the library's documented behaviour, and the
  function itself, translated line by line.

  Idealisations, all of them written out here:
  \<^item> pixels are integers of a fixed-width numpy dtype; subtraction wraps as that dtype
    does. Floating-point stacks are outside the model;
  \<^item> float64 values (the threshold, the mean, the standard deviation) are real numbers,
    with \<open>None\<close> for NaN; rounding and infinities are outside the model;
  \<^item> an array is its shape and an index function that is read inside the shape only.
\<close>

subsection \<open>Arrays, dtypes and Python exceptions\<close>

datatype error = IndexError | ValueError

datatype dtype = UInt8 | UInt16 | UInt32 | UInt64 | Int8 | Int16 | Int32 | Int64

fun bits :: "dtype \<Rightarrow> nat" where
  "bits UInt8 = 8"
| "bits UInt16 = 16"
| "bits UInt32 = 32"
| "bits UInt64 = 64"
| "bits Int8 = 8"
| "bits Int16 = 16"
| "bits Int32 = 32"
| "bits Int64 = 64"

fun is_signed :: "dtype \<Rightarrow> bool" where
  "is_signed UInt8 = False"
| "is_signed UInt16 = False"
| "is_signed UInt32 = False"
| "is_signed UInt64 = False"
| "is_signed Int8 = True"
| "is_signed Int16 = True"
| "is_signed Int32 = True"
| "is_signed Int64 = True"

text \<open>The value an integer result takes when it is stored in a dtype: numpy integer
  arithmetic wraps modulo \<open>2 ^ bits\<close>, in two's complement for the signed dtypes.\<close>

definition wrap :: "dtype \<Rightarrow> int \<Rightarrow> int" where
  "wrap dt v =
     (if is_signed dt
      then (v + 2 ^ (bits dt - 1)) mod 2 ^ bits dt - 2 ^ (bits dt - 1)
      else v mod 2 ^ bits dt)"

record 'a ndarray2 =
  shape2 :: "nat \<times> nat"
  item2 :: "nat \<Rightarrow> nat \<Rightarrow> 'a"

record ndarray3 =
  dtype3 :: dtype
  shape3 :: "nat \<times> nat \<times> nat"
  item3 :: "nat \<Rightarrow> nat \<Rightarrow> nat \<Rightarrow> int"

type_synonym cell = "nat \<times> nat"

text \<open>An integer index into an axis of length \<open>n\<close>: a negative index counts from the
  end, and an index outside \<open>-n \<le> i < n\<close> raises IndexError.\<close>

definition normalize_index :: "nat \<Rightarrow> int \<Rightarrow> error + nat" where
  "normalize_index n i =
     (if 0 \<le> i \<and> i < int n then Inr (nat i)
      else if - int n \<le> i \<and> i < 0 then Inr (nat (int n + i))
      else Inl IndexError)"

text \<open>\<^verbatim>\<open>stack[t]\<close> with a Python integer: the frame at that index of axis 0.\<close>

definition getitem3 :: "ndarray3 \<Rightarrow> int \<Rightarrow> error + int ndarray2" where
  "getitem3 stack t =
     (case shape3 stack of (T, Y, X) \<Rightarrow>
        (case normalize_index T t of
           Inl e \<Rightarrow> Inl e
         | Inr k \<Rightarrow> Inr \<lparr>shape2 = (Y, X), item2 = item3 stack k\<rparr>))"

text \<open>\<^verbatim>\<open>diff[cy, cx]\<close> with two Python integers.\<close>

definition getitem2 :: "'a ndarray2 \<Rightarrow> int \<Rightarrow> int \<Rightarrow> error + 'a" where
  "getitem2 a cy cx =
     (case normalize_index (fst (shape2 a)) cy of
        Inl e \<Rightarrow> Inl e
      | Inr r \<Rightarrow>
          (case normalize_index (snd (shape2 a)) cx of
             Inl e \<Rightarrow> Inl e
           | Inr c \<Rightarrow> Inr (item2 a r c)))"

text \<open>The cells of a \<open>Y \<times> X\<close> grid in row-major (C) order, and the flattened array.\<close>

definition cells :: "nat \<times> nat \<Rightarrow> cell list" where
  "cells s = List.product [0..<fst s] [0..<snd s]"

definition ravel :: "'a ndarray2 \<Rightarrow> 'a list" where
  "ravel a = map (\<lambda>c. item2 a (fst c) (snd c)) (cells (shape2 a))"

subsection \<open>Elementwise operations\<close>

text \<open>numpy broadcasting of one axis: equal lengths, or one of them is 1.\<close>

definition broadcast_dim :: "nat \<Rightarrow> nat \<Rightarrow> nat option" where
  "broadcast_dim m n =
     (if m = n then Some m else if m = 1 then Some n else if n = 1 then Some m else None)"

text \<open>\<^verbatim>\<open>a - b\<close> on two 2-D integer arrays of one dtype: the shapes are broadcast
  (ValueError when they cannot be), the difference wraps in the dtype.\<close>

definition np_subtract :: "dtype \<Rightarrow> int ndarray2 \<Rightarrow> int ndarray2 \<Rightarrow> error + int ndarray2" where
  "np_subtract dt a b =
     (case (broadcast_dim (fst (shape2 a)) (fst (shape2 b)),
            broadcast_dim (snd (shape2 a)) (snd (shape2 b))) of
        (Some h, Some w) \<Rightarrow>
          Inr \<lparr>shape2 = (h, w),
               item2 = (\<lambda>r c.
                 wrap dt (item2 a (if fst (shape2 a) = 1 then 0 else r)
                                  (if snd (shape2 a) = 1 then 0 else c)
                        - item2 b (if fst (shape2 b) = 1 then 0 else r)
                                  (if snd (shape2 b) = 1 then 0 else c)))\<rparr>
      | _ \<Rightarrow> Inl ValueError)"

text \<open>\<^verbatim>\<open>a > s\<close> for an integer array and a float64 scalar; every comparison with NaN
  is false.\<close>

definition np_greater :: "int ndarray2 \<Rightarrow> real option \<Rightarrow> bool ndarray2" where
  "np_greater a s =
     \<lparr>shape2 = shape2 a,
      item2 = (\<lambda>r c. case s of None \<Rightarrow> False | Some v \<Rightarrow> v < real_of_int (item2 a r c))\<rparr>"

text \<open>\<^verbatim>\<open>a == i\<close> for a label array and an integer.\<close>

definition np_equal :: "nat ndarray2 \<Rightarrow> nat \<Rightarrow> bool ndarray2" where
  "np_equal a i = \<lparr>shape2 = shape2 a, item2 = (\<lambda>r c. item2 a r c = i)\<rparr>"

text \<open>\<^verbatim>\<open>np.where(mask)\<close>: the coordinates of the true cells in row-major order. numpy
  returns the row indices and the column indices as two arrays; here they are the
  first and second components of one list of cells.\<close>

definition np_where :: "bool ndarray2 \<Rightarrow> cell list" where
  "np_where m = filter (\<lambda>c. item2 m (fst c) (snd c)) (cells (shape2 m))"

subsection \<open>Statistics\<close>

text \<open>\<^verbatim>\<open>np.mean\<close> and \<^verbatim>\<open>np.std\<close> (population standard deviation, \<^verbatim>\<open>ddof=0\<close>) of
  the flattened array. On an empty array numpy warns and returns NaN.\<close>

definition np_mean :: "real list \<Rightarrow> real option" where
  "np_mean vs = (if vs = [] then None else Some (sum_list vs / real (length vs)))"

definition np_std :: "real list \<Rightarrow> real option" where
  "np_std vs =
     (case np_mean vs of
        None \<Rightarrow> None
      | Some m \<Rightarrow>
          (case np_mean (map (\<lambda>v. (abs (v - m))\<^sup>2) vs) of
             None \<Rightarrow> None
           | Some var \<Rightarrow> Some (sqrt var)))"

text \<open>\<^verbatim>\<open>nan * x\<close> is NaN.\<close>

definition float_mul :: "real \<Rightarrow> real option \<Rightarrow> real option" where
  "float_mul a b = (case b of None \<Rightarrow> None | Some v \<Rightarrow> Some (a * v))"

text \<open>\<^verbatim>\<open>int(r)\<close> on a float: truncation toward zero; ValueError on NaN.\<close>

definition py_int :: "real option \<Rightarrow> error + int" where
  "py_int r =
     (case r of
        None \<Rightarrow> Inl ValueError
      | Some v \<Rightarrow> Inr (if 0 \<le> v then \<lfloor>v\<rfloor> else \<lceil>v\<rceil>))"

subsection \<open>Connected-component labelling\<close>

text \<open>
  \<^verbatim>\<open>ndimage.label(candidates)\<close> is called with no \<^verbatim>\<open>structure\<close> argument. scipy then
  uses the structuring element of connectivity one, which for a 2-D input is the cross
  \<^verbatim>\<open>[[0,1,0],[1,1,1],[0,1,0]]\<close>: two cells are neighbours when they share an edge.
  Labels are consecutive from 1, in the order in which the first cell of each
  component is met in a row-major scan; background is 0.
\<close>

definition adjacent4 :: "cell \<Rightarrow> cell \<Rightarrow> bool" where
  "adjacent4 c d =
     ((fst c = fst d \<and> (snd c = Suc (snd d) \<or> snd d = Suc (snd c)))
    \<or> (snd c = snd d \<and> (fst c = Suc (fst d) \<or> fst d = Suc (fst c))))"

text \<open>One round of growth: the foreground cells that are in the region or next to it.\<close>

definition grow :: "cell list \<Rightarrow> cell list \<Rightarrow> cell list" where
  "grow fg S = filter (\<lambda>c. c \<in> set S \<or> (\<exists>d \<in> set S. adjacent4 c d)) fg"

text \<open>Flood fill from a region: grow until a round adds no cell.\<close>

function flood :: "cell list \<Rightarrow> cell list \<Rightarrow> cell list" where
  "flood fg S = (if length S < length (grow fg S) then flood fg (grow fg S) else grow fg S)"
  by pat_completeness auto
termination
proof (relation "measure (\<lambda>(fg, S). length fg - length S)")
  show "wf (measure (\<lambda>(fg, S). length fg - length S))" by simp
next
  fix fg S :: "cell list"
  assume lt: "length S < length (grow fg S)"
  have "length (grow fg S) \<le> length fg"
    by (simp add: grow_def)
  with lt show "((fg, grow fg S), (fg, S)) \<in> measure (\<lambda>(fg, S). length fg - length S)"
    by simp
qed

declare flood.simps [simp del]

text \<open>The components of the foreground, in the order of their first cells: the first
  foreground cell not yet labelled starts the next component.\<close>

fun components :: "cell list \<Rightarrow> cell list \<Rightarrow> cell list list" where
  "components fg [] = []"
| "components fg (c # cs) =
     flood fg [c] # components fg (filter (\<lambda>d. d \<notin> set (flood fg [c])) cs)"

fun label_of :: "nat \<Rightarrow> cell list list \<Rightarrow> cell \<Rightarrow> nat" where
  "label_of n [] c = 0"
| "label_of n (region # rest) c = (if c \<in> set region then n else label_of (Suc n) rest c)"

definition ndimage_label :: "bool ndarray2 \<Rightarrow> nat ndarray2 \<times> nat" where
  "ndimage_label input =
     (let fg = np_where input; comps = components fg fg
      in (\<lparr>shape2 = shape2 input, item2 = (\<lambda>r c. label_of 1 comps (r, c))\<rparr>, length comps))"

subsection \<open>The detection function\<close>

record event =
  ev_frame :: int
  ev_y :: int
  ev_x :: int
  ev_intensity :: int

text \<open>Lines 51 to 53, the change detector: the difference image of two frames and its
  candidate mask.\<close>

definition change_detector ::
  "dtype \<Rightarrow> int ndarray2 \<Rightarrow> int ndarray2 \<Rightarrow> real \<Rightarrow> real option
     \<Rightarrow> error + (int ndarray2 \<times> bool ndarray2)" where
  "change_detector dt prev cur threshold bg_std =
     (case np_subtract dt cur prev of
        Inl e \<Rightarrow> Inl e
      | Inr diff \<Rightarrow> Inr (diff, np_greater diff (float_mul threshold bg_std)))"

text \<open>Lines 55 to 70, the loop over the labels \<^verbatim>\<open>range(1, num_features+1)\<close>, with the
  list of events threaded through.\<close>

fun label_loop ::
  "nat \<Rightarrow> int ndarray2 \<Rightarrow> nat ndarray2 \<Rightarrow> nat list \<Rightarrow> event list \<Rightarrow> error + event list" where
  "label_loop t diff labeled [] events = Inr events"
| "label_loop t diff labeled (i # rest) events =
     (let mask = np_equal labeled i;
          yx = np_where mask;
          y = map fst yx;
          x = map snd yx
      in if length y = 0 then label_loop t diff labeled rest events
         else
           (case py_int (np_mean (map real y)) of
              Inl e \<Rightarrow> Inl e
            | Inr cy \<Rightarrow>
                (case py_int (np_mean (map real x)) of
                   Inl e \<Rightarrow> Inl e
                 | Inr cx \<Rightarrow>
                     (case getitem2 diff cy cx of
                        Inl e \<Rightarrow> Inl e
                      | Inr v \<Rightarrow>
                          label_loop t diff labeled rest
                            (events @
                             [\<lparr>ev_frame = int t, ev_y = cy, ev_x = cx, ev_intensity = v\<rparr>])))))"

text \<open>Lines 50 to 70, the loop over the frames \<^verbatim>\<open>range(1, T)\<close>.\<close>

fun frame_loop ::
  "ndarray3 \<Rightarrow> real \<Rightarrow> real option \<Rightarrow> nat list \<Rightarrow> event list \<Rightarrow> error + event list" where
  "frame_loop stack threshold bg_std [] events = Inr events"
| "frame_loop stack threshold bg_std (t # ts) events =
     (case getitem3 stack (int t) of
        Inl e \<Rightarrow> Inl e
      | Inr cur \<Rightarrow>
          (case getitem3 stack (int t - 1) of
             Inl e \<Rightarrow> Inl e
           | Inr prev \<Rightarrow>
               (case change_detector (dtype3 stack) prev cur threshold bg_std of
                  Inl e \<Rightarrow> Inl e
                | Inr (diff, candidates) \<Rightarrow>
                    (case ndimage_label candidates of
                       (labeled, num_features) \<Rightarrow>
                         (case label_loop t diff labeled [1..<num_features + 1] events of
                            Inl e \<Rightarrow> Inl e
                          | Inr events' \<Rightarrow>
                              frame_loop stack threshold bg_std ts events')))))"

definition detect_insertions_slow :: "ndarray3 \<Rightarrow> real \<Rightarrow> int \<Rightarrow> error + event list" where
  "detect_insertions_slow stack threshold min_distance =
     (case shape3 stack of (T, Y, X) \<Rightarrow>
        (case getitem3 stack 0 of
           Inl e \<Rightarrow> Inl e
         | Inr frame0 \<Rightarrow>
             (let bg_mean = np_mean (map real_of_int (ravel frame0));
                  bg_std = np_std (map real_of_int (ravel frame0))
              in frame_loop stack threshold bg_std [1..<T] [])))"

text \<open>A stack written as nested lists, for concrete inputs.\<close>

definition of_frames :: "dtype \<Rightarrow> nat \<times> nat \<times> nat \<Rightarrow> int list list list \<Rightarrow> ndarray3" where
  "of_frames dt s fs = \<lparr>dtype3 = dt, shape3 = s, item3 = (\<lambda>t r c. fs ! t ! r ! c)\<rparr>"

subsection \<open>Notions used to state the properties\<close>

text \<open>Connectivity of foreground cells: the reflexive transitive closure of edge
  adjacency between cells of the foreground.\<close>

definition conn4 :: "cell list \<Rightarrow> (cell \<times> cell) set" where
  "conn4 fg = {(c, d). c \<in> set fg \<and> d \<in> set fg \<and> adjacent4 c d}\<^sup>*"

text \<open>A set of remaining cells that is a union of whole components.\<close>

definition closed4 :: "cell list \<Rightarrow> cell list \<Rightarrow> bool" where
  "closed4 fg rem \<longleftrightarrow>
     distinct rem \<and> set rem \<subseteq> set fg \<and> (\<forall>c \<in> set rem. \<forall>d. (c, d) \<in> conn4 fg \<longrightarrow> d \<in> set rem)"

text \<open>The difference image of the frame pair \<open>(t - 1, t)\<close>, the reference standard
  deviation of frame 0, and the candidate mask, as the data model describes them.\<close>

definition diff_image :: "ndarray3 \<Rightarrow> nat \<Rightarrow> int ndarray2" where
  "diff_image stack t =
     \<lparr>shape2 = snd (shape3 stack),
      item2 = (\<lambda>r c. wrap (dtype3 stack) (item3 stack t r c - item3 stack (t - 1) r c))\<rparr>"

definition reference_std :: "ndarray3 \<Rightarrow> real option" where
  "reference_std stack =
     np_std (map real_of_int (ravel \<lparr>shape2 = snd (shape3 stack), item2 = item3 stack 0\<rparr>))"

definition candidate_mask :: "ndarray3 \<Rightarrow> real \<Rightarrow> nat \<Rightarrow> bool ndarray2" where
  "candidate_mask stack threshold t =
     \<lparr>shape2 = snd (shape3 stack),
      item2 = (\<lambda>r c. case reference_std stack of
                 None \<Rightarrow> False
               | Some s \<Rightarrow> threshold * s < real_of_int (item2 (diff_image stack t) r c))\<rparr>"

text \<open>The member cells of the component with label \<open>i\<close>, in row-major order.\<close>

definition component_cells :: "nat ndarray2 \<Rightarrow> nat \<Rightarrow> cell list" where
  "component_cells labeled i =
     filter (\<lambda>c. item2 labeled (fst c) (snd c) = i) (cells (shape2 labeled))"

text \<open>The arithmetic mean of a list of indices, truncated toward zero.\<close>

definition arithmetic_mean :: "nat list \<Rightarrow> real" where
  "arithmetic_mean ys = (\<Sum>y\<leftarrow>ys. real y) / real (length ys)"

definition truncate_toward_zero :: "real \<Rightarrow> int" where
  "truncate_toward_zero r = (if r < 0 then - \<lfloor>- r\<rfloor> else \<lfloor>r\<rfloor>)"

definition trunc_mean :: "nat list \<Rightarrow> nat" where
  "trunc_mean ys = nat (truncate_toward_zero (arithmetic_mean ys))"

text \<open>The event of one component: its truncated centroid, and the difference image
  sampled at that coordinate.\<close>

definition centroid_event :: "nat \<Rightarrow> int ndarray2 \<Rightarrow> cell list \<Rightarrow> event" where
  "centroid_event t diff yx =
     \<lparr>ev_frame = int t,
      ev_y = int (trunc_mean (map fst yx)),
      ev_x = int (trunc_mean (map snd yx)),
      ev_intensity = item2 diff (trunc_mean (map fst yx)) (trunc_mean (map snd yx))\<rparr>"

text \<open>The events of one frame pair: one per label, in label order.\<close>

definition frame_events :: "ndarray3 \<Rightarrow> real \<Rightarrow> nat \<Rightarrow> event list" where
  "frame_events stack threshold t =
     (case ndimage_label (candidate_mask stack threshold t) of
        (labeled, num_features) \<Rightarrow>
          map (\<lambda>i. centroid_event t (diff_image stack t) (component_cells labeled i))
            [1..<num_features + 1])"

subsection \<open>Concrete stacks\<close>

text \<open>Scenario A of the specification: three 5 by 5 frames, all zero except the value
  100 at \<open>(2, 2)\<close> of frame 2.\<close>

definition scenario_A :: "dtype \<Rightarrow> ndarray3" where
  "scenario_A dt =
     \<lparr>dtype3 = dt, shape3 = (3, 5, 5),
      item3 = (\<lambda>t r c. if t = 2 \<and> r = 2 \<and> c = 2 then 100 else 0)\<rparr>"

text \<open>Two bright pixels that touch at a corner only.\<close>

definition diagonal_stack :: ndarray3 where
  "diagonal_stack = of_frames UInt16 (2, 2, 2) [[[0, 0], [0, 0]], [[50, 0], [0, 50]]]"

text \<open>A reference frame of standard deviation 1, then a row whose difference image is
  \<open>10, 5, 10, 0\<close>.\<close>

definition plateau_stack :: ndarray3 where
  "plateau_stack = of_frames UInt16 (2, 1, 4) [[[0, 2, 0, 2]], [[10, 7, 10, 2]]]"

text \<open>Degenerate shapes: no frame at all, and two frames of zero rows.\<close>

definition no_frames_stack :: ndarray3 where
  "no_frames_stack = of_frames UInt16 (0, 5, 5) []"

definition empty_frames_stack :: ndarray3 where
  "empty_frames_stack = of_frames UInt16 (2, 0, 3) [[], []]"

text \<open>A ring of eight bright pixels around a dark centre.\<close>

definition ring_stack :: ndarray3 where
  "ring_stack =
     of_frames UInt16 (2, 3, 3)
       [[[0, 0, 0], [0, 0, 0], [0, 0, 0]], [[50, 50, 50], [50, 0, 50], [50, 50, 50]]]"

text \<open>Three identical frames.\<close>

definition static_stack :: ndarray3 where
  "static_stack =
     of_frames UInt16 (3, 2, 2) [[[1, 5], [7, 3]], [[1, 5], [7, 3]], [[1, 5], [7, 3]]]"

text \<open>Two separate spikes appear in frame 1, a third one in frame 2.\<close>

definition spikes_stack :: ndarray3 where
  "spikes_stack =
     of_frames UInt16 (3, 3, 4)
       [[[0, 0, 0, 0], [0, 0, 0, 0], [0, 0, 0, 0]],
        [[50, 0, 0, 0], [0, 0, 0, 0], [0, 0, 0, 50]],
        [[50, 0, 0, 0], [0, 0, 30, 0], [0, 0, 0, 50]]]"

text \<open>An L-shaped foreground with one more cell at a corner of it.\<close>

definition corner_mask :: "bool ndarray2" where
  "corner_mask =
     \<lparr>shape2 = (2, 3),
      item2 = (\<lambda>r c. [[True, True, False], [False, False, True]] ! r ! c)\<rparr>"

text \<open>Two single frames of one shape.\<close>

definition frame_2x2 :: "int ndarray2" where
  "frame_2x2 = \<lparr>shape2 = (2, 2), item2 = (\<lambda>r c. [[10, 20], [30, 40]] ! r ! c)\<rparr>"

definition dark_2x2 :: "int ndarray2" where
  "dark_2x2 = \<lparr>shape2 = (2, 2), item2 = (\<lambda>r c. 0)\<rparr>"


section \<open>Auxiliary facts\<close>

lemma adjacent4_sym: "adjacent4 c d \<Longrightarrow> adjacent4 d c"
  by (auto simp: adjacent4_def)

lemma conn4_sym: "(c, d) \<in> conn4 fg \<Longrightarrow> (d, c) \<in> conn4 fg"
proof -
  have "sym {(c, d). c \<in> set fg \<and> d \<in> set fg \<and> adjacent4 c d}"
    by (auto simp: sym_def adjacent4_sym)
  then have "sym (conn4 fg)"
    unfolding conn4_def by (rule sym_rtrancl)
  then show "(c, d) \<in> conn4 fg \<Longrightarrow> (d, c) \<in> conn4 fg"
    by (rule symD)
qed

lemma conn4_trans: "(c, d) \<in> conn4 fg \<Longrightarrow> (d, e) \<in> conn4 fg \<Longrightarrow> (c, e) \<in> conn4 fg"
  unfolding conn4_def by (rule rtrancl_trans)

lemma conn4_refl: "(c, c) \<in> conn4 fg"
  by (simp add: conn4_def)

lemma conn4_step: "c \<in> set fg \<Longrightarrow> d \<in> set fg \<Longrightarrow> adjacent4 c d \<Longrightarrow> (c, d) \<in> conn4 fg"
  by (auto simp: conn4_def)

lemma conn4_in_fg: "(c, d) \<in> conn4 fg \<Longrightarrow> c \<in> set fg \<Longrightarrow> d \<in> set fg"
  unfolding conn4_def by (induction rule: rtrancl_induct) auto

lemma grow_subset: "set (grow fg S) \<subseteq> set fg"
  by (auto simp: grow_def)

lemma grow_incl: "set S \<subseteq> set fg \<Longrightarrow> set S \<subseteq> set (grow fg S)"
  by (auto simp: grow_def)

lemma grow_distinct: "distinct fg \<Longrightarrow> distinct (grow fg S)"
  by (simp add: grow_def)

lemma grow_reach:
  assumes "c \<in> set (grow fg S)" and "set S \<subseteq> set fg"
  shows "\<exists>s \<in> set S. (s, c) \<in> conn4 fg"
proof -
  from assms(1) have cfg: "c \<in> set fg" and alt: "c \<in> set S \<or> (\<exists>d \<in> set S. adjacent4 c d)"
    by (auto simp: grow_def)
  from alt show ?thesis
  proof
    assume "c \<in> set S"
    then show ?thesis using conn4_refl by blast
  next
    assume "\<exists>d \<in> set S. adjacent4 c d"
    then obtain d where d: "d \<in> set S" "adjacent4 c d" by blast
    with assms(2) have "d \<in> set fg" by blast
    with d cfg have "(d, c) \<in> conn4 fg"
      by (simp add: conn4_step adjacent4_sym)
    with d show ?thesis by blast
  qed
qed

lemma grow_stable:
  assumes "distinct fg" "distinct S" "set S \<subseteq> set fg" "\<not> length S < length (grow fg S)"
  shows "set (grow fg S) = set S"
proof -
  have sub: "set S \<subseteq> set (grow fg S)" using assms(3) by (rule grow_incl)
  have "card (set (grow fg S)) = length (grow fg S)"
    using assms(1) by (simp add: grow_distinct distinct_card)
  moreover have "card (set S) = length S"
    using assms(2) by (simp add: distinct_card)
  ultimately have "card (set (grow fg S)) \<le> card (set S)"
    using assms(4) by simp
  with sub have "set S = set (grow fg S)"
    by (intro card_seteq) simp_all
  then show ?thesis by simp
qed

lemma flood_props:
  "distinct fg \<Longrightarrow> distinct S \<Longrightarrow> set S \<subseteq> set fg \<Longrightarrow>
     set S \<subseteq> set (flood fg S) \<and> set (flood fg S) \<subseteq> set fg \<and> distinct (flood fg S)
     \<and> (\<forall>c \<in> set fg. (\<exists>d \<in> set (flood fg S). adjacent4 c d) \<longrightarrow> c \<in> set (flood fg S))
     \<and> (\<forall>c \<in> set (flood fg S). \<exists>s \<in> set S. (s, c) \<in> conn4 fg)"
proof (induction fg S rule: flood.induct)
  case (1 fg S)
  show ?case
  proof (cases "length S < length (grow fg S)")
    case True
    then have eq: "flood fg S = flood fg (grow fg S)"
      by (simp add: flood.simps [of fg S])
    have ih: "set (grow fg S) \<subseteq> set (flood fg (grow fg S))
        \<and> set (flood fg (grow fg S)) \<subseteq> set fg \<and> distinct (flood fg (grow fg S))
        \<and> (\<forall>c \<in> set fg. (\<exists>d \<in> set (flood fg (grow fg S)). adjacent4 c d)
              \<longrightarrow> c \<in> set (flood fg (grow fg S)))
        \<and> (\<forall>c \<in> set (flood fg (grow fg S)). \<exists>s \<in> set (grow fg S). (s, c) \<in> conn4 fg)"
      using "1.IH" [OF True "1.prems"(1) grow_distinct [OF "1.prems"(1)] grow_subset] .
    have reach: "\<forall>c \<in> set (flood fg (grow fg S)). \<exists>s \<in> set S. (s, c) \<in> conn4 fg"
    proof
      fix c assume "c \<in> set (flood fg (grow fg S))"
      with ih obtain g where g: "g \<in> set (grow fg S)" "(g, c) \<in> conn4 fg" by blast
      from grow_reach [OF g(1) "1.prems"(3)] obtain s where "s \<in> set S" "(s, g) \<in> conn4 fg"
        by blast
      with g(2) show "\<exists>s \<in> set S. (s, c) \<in> conn4 fg"
        using conn4_trans by blast
    qed
    from ih reach grow_incl [OF "1.prems"(3)] show ?thesis
      unfolding eq by blast
  next
    case False
    then have eq: "flood fg S = grow fg S"
      by (simp add: flood.simps [of fg S])
    have st: "set (grow fg S) = set S"
      using "1.prems" False by (rule grow_stable)
    have closed: "\<forall>c \<in> set fg. (\<exists>d \<in> set (grow fg S). adjacent4 c d) \<longrightarrow> c \<in> set (grow fg S)"
    proof (intro ballI impI)
      fix c assume "c \<in> set fg" and "\<exists>d \<in> set (grow fg S). adjacent4 c d"
      then have "c \<in> set fg" and "\<exists>d \<in> set S. adjacent4 c d"
        unfolding st by simp_all
      then show "c \<in> set (grow fg S)"
        by (simp add: grow_def)
    qed
    have reach: "\<forall>c \<in> set (grow fg S). \<exists>s \<in> set S. (s, c) \<in> conn4 fg"
      unfolding st using conn4_refl by blast
    from st closed reach "1.prems" show ?thesis
      unfolding eq by (simp add: grow_distinct grow_subset)
  qed
qed

lemma flood_seed:
  assumes "distinct fg" "s \<in> set fg"
  shows "set (flood fg [s]) = {c. (s, c) \<in> conn4 fg}"
proof -
  have p: "set [s] \<subseteq> set (flood fg [s]) \<and> set (flood fg [s]) \<subseteq> set fg \<and> distinct (flood fg [s])
     \<and> (\<forall>c \<in> set fg. (\<exists>d \<in> set (flood fg [s]). adjacent4 c d) \<longrightarrow> c \<in> set (flood fg [s]))
     \<and> (\<forall>c \<in> set (flood fg [s]). \<exists>t \<in> set [s]. (t, c) \<in> conn4 fg)"
    using assms by (intro flood_props) simp_all
  have "(s, c) \<in> conn4 fg \<Longrightarrow> c \<in> set (flood fg [s])" for c
    unfolding conn4_def
  proof (induction rule: rtrancl_induct)
    case base
    then show ?case using p by simp
  next
    case (step y z)
    then show ?case using p adjacent4_sym by blast
  qed
  moreover have "c \<in> set (flood fg [s]) \<Longrightarrow> (s, c) \<in> conn4 fg" for c
    using p by auto
  ultimately show ?thesis by blast
qed

lemma closed4_self: "distinct fg \<Longrightarrow> closed4 fg fg"
  using conn4_in_fg by (auto simp: closed4_def)

lemma closed4_filter:
  assumes fg: "distinct fg" and cl: "closed4 fg (s # rem)"
  shows "closed4 fg (filter (\<lambda>d. d \<notin> set (flood fg [s])) rem)"
proof -
  have s: "s \<in> set fg" using cl by (simp add: closed4_def)
  have fl: "set (flood fg [s]) = {c. (s, c) \<in> conn4 fg}"
    using fg s by (rule flood_seed)
  have "d \<in> set (filter (\<lambda>d. d \<notin> set (flood fg [s])) rem)"
    if c: "c \<in> set (filter (\<lambda>d. d \<notin> set (flood fg [s])) rem)" and cd: "(c, d) \<in> conn4 fg" for c d
  proof -
    from c have crem: "c \<in> set rem" and cn: "(s, c) \<notin> conn4 fg"
      by (simp_all add: fl)
    have "c \<in> set (s # rem)" using crem by simp
    with cl cd have "d \<in> set (s # rem)"
      unfolding closed4_def by blast
    moreover have "(s, d) \<notin> conn4 fg"
      using cn cd conn4_sym conn4_trans by blast
    moreover have "d \<noteq> s"
      using \<open>(s, d) \<notin> conn4 fg\<close> conn4_refl [of s fg] by blast
    ultimately show ?thesis
      by (simp add: fl)
  qed
  moreover have "distinct (filter (\<lambda>d. d \<notin> set (flood fg [s])) rem)"
    using cl by (simp add: closed4_def)
  moreover have "set (filter (\<lambda>d. d \<notin> set (flood fg [s])) rem) \<subseteq> set fg"
    using cl by (auto simp: closed4_def)
  ultimately show ?thesis
    unfolding closed4_def by blast
qed

lemma components_union:
  "distinct fg \<Longrightarrow> closed4 fg rem \<Longrightarrow> \<Union> (set ` set (components fg rem)) = set rem"
proof (induction fg rem rule: components.induct)
  case (1 fg)
  then show ?case by simp
next
  case (2 fg s rem)
  have s: "s \<in> set fg" using "2.prems"(2) by (simp add: closed4_def)
  have fl: "set (flood fg [s]) = {c. (s, c) \<in> conn4 fg}"
    using "2.prems"(1) s by (rule flood_seed)
  have sub: "set (flood fg [s]) \<subseteq> set (s # rem)"
    using "2.prems"(2) unfolding fl closed4_def by auto
  have sin: "s \<in> set (flood fg [s])"
    unfolding fl by (simp add: conn4_refl)
  have ih: "\<Union> (set ` set (components fg (filter (\<lambda>d. d \<notin> set (flood fg [s])) rem)))
      = set (filter (\<lambda>d. d \<notin> set (flood fg [s])) rem)"
    using "2.IH" [OF "2.prems"(1) closed4_filter [OF "2.prems"]] .
  show ?case
    using sub sin by (auto simp: ih)
qed

lemma components_class:
  "distinct fg \<Longrightarrow> closed4 fg rem \<Longrightarrow> R \<in> set (components fg rem) \<Longrightarrow>
     \<exists>s \<in> set rem. set R = {c. (s, c) \<in> conn4 fg}"
proof (induction fg rem rule: components.induct)
  case (1 fg)
  then show ?case by simp
next
  case (2 fg s rem)
  have s: "s \<in> set fg" using "2.prems"(2) by (simp add: closed4_def)
  have fl: "set (flood fg [s]) = {c. (s, c) \<in> conn4 fg}"
    using "2.prems"(1) s by (rule flood_seed)
  from "2.prems"(3) consider "R = flood fg [s]"
    | "R \<in> set (components fg (filter (\<lambda>d. d \<notin> set (flood fg [s])) rem))"
    by auto
  then show ?case
  proof cases
    case 1
    then show ?thesis using fl by auto
  next
    case 2
    from "2.IH" [OF "2.prems"(1) closed4_filter [OF "2.prems"(1,2)] 2]
    show ?thesis by auto
  qed
qed

lemma components_disjoint:
  "distinct fg \<Longrightarrow> closed4 fg rem \<Longrightarrow> j < k \<Longrightarrow> k < length (components fg rem) \<Longrightarrow>
     set (components fg rem ! j) \<inter> set (components fg rem ! k) = {}"
proof (induction fg rem arbitrary: j k rule: components.induct)
  case (1 fg)
  then show ?case by simp
next
  case (2 fg s rem)
  let ?rem' = "filter (\<lambda>d. d \<notin> set (flood fg [s])) rem"
  have cl': "closed4 fg ?rem'"
    using "2.prems"(1,2) by (rule closed4_filter)
  obtain k' where k: "k = Suc k'" using "2.prems"(3) by (cases k) auto
  have k'len: "k' < length (components fg ?rem')"
    using "2.prems"(4) k by simp
  have un: "\<Union> (set ` set (components fg ?rem')) = set ?rem'"
    using "2.prems"(1) cl' by (rule components_union)
  show ?case
  proof (cases j)
    case 0
    have "set (components fg ?rem' ! k') \<subseteq> set ?rem'"
      using un k'len nth_mem by blast
    then show ?thesis
      using 0 k by auto
  next
    case (Suc j')
    then have "j' < k'" using "2.prems"(3) k by simp
    from "2.IH" [OF "2.prems"(1) cl' this k'len] show ?thesis
      using Suc k by simp
  qed
qed

lemma label_of_notin:
  "c \<notin> \<Union> (set ` set rs) \<Longrightarrow> label_of n rs c = 0"
  by (induction rs arbitrary: n) auto

lemma label_of_first:
  "k < length rs \<Longrightarrow> c \<in> set (rs ! k) \<Longrightarrow> \<forall>j < k. c \<notin> set (rs ! j) \<Longrightarrow>
     label_of n rs c = n + k"
proof (induction rs arbitrary: n k)
  case Nil
  then show ?case by simp
next
  case (Cons r rs)
  show ?case
  proof (cases k)
    case 0
    then show ?thesis using Cons.prems by simp
  next
    case (Suc k')
    have "c \<notin> set r" using Cons.prems(3) Suc by auto
    moreover have "label_of (Suc n) rs c = Suc n + k'"
    proof (rule Cons.IH)
      show "k' < length rs" using Cons.prems(1) Suc by simp
      show "c \<in> set (rs ! k')" using Cons.prems(2) Suc by simp
      show "\<forall>j < k'. c \<notin> set (rs ! j)"
        using Cons.prems(3) Suc by auto
    qed
    ultimately show ?thesis using Suc by simp
  qed
qed

lemma label_of_in:
  "c \<in> \<Union> (set ` set rs) \<Longrightarrow>
     n \<le> label_of n rs c \<and> label_of n rs c < n + length rs \<and> c \<in> set (rs ! (label_of n rs c - n))"
proof (induction rs arbitrary: n)
  case Nil
  then show ?case by simp
next
  case (Cons r rs)
  show ?case
  proof (cases "c \<in> set r")
    case True
    then show ?thesis by simp
  next
    case False
    with Cons.prems have "c \<in> \<Union> (set ` set rs)" by simp
    from Cons.IH [OF this, of "Suc n"] False show ?thesis
      by (auto simp: Suc_diff_le)
  qed
qed

lemma set_cells: "set (cells s) = {(r, c). r < fst s \<and> c < snd s}"
  by (auto simp: cells_def)

lemma distinct_cells: "distinct (cells s)"
  by (simp add: cells_def distinct_product)

lemma distinct_np_where: "distinct (np_where m)"
  by (simp add: np_where_def distinct_cells)

lemma set_np_where:
  "set (np_where m) = {(r, c). r < fst (shape2 m) \<and> c < snd (shape2 m) \<and> item2 m r c}"
  by (auto simp: np_where_def set_cells)

lemma np_where_cong:
  assumes "shape2 a = shape2 b"
    and "\<And>r c. r < fst (shape2 a) \<Longrightarrow> c < snd (shape2 a) \<Longrightarrow> item2 a r c = item2 b r c"
  shows "np_where a = np_where b"
  unfolding np_where_def assms(1) [symmetric]
  by (rule filter_cong) (auto simp: set_cells assms(2))

lemma sum_list_real: "sum_list (map real ys) = real (sum_list ys)"
  by (induction ys) simp_all

lemma py_int_mean:
  "ys \<noteq> [] \<Longrightarrow> py_int (np_mean (map real ys)) = Inr (int (sum_list ys div length ys))"
  by (simp add: np_mean_def py_int_def sum_list_real floor_divide_of_nat_eq)

lemma truncate_mean_div:
  "truncate_toward_zero (arithmetic_mean ys) = int (sum_list ys div length ys)"
proof -
  have "\<lfloor>real (sum_list ys) / real (length ys)\<rfloor> = int (sum_list ys div length ys)"
    by (rule floor_divide_of_nat_eq)
  moreover have "\<not> real (sum_list ys) / real (length ys) < 0"
    by (simp add: not_less)
  ultimately show ?thesis
    by (simp add: truncate_toward_zero_def arithmetic_mean_def sum_list_real)
qed

lemma trunc_mean_div: "trunc_mean ys = sum_list ys div length ys"
  by (simp add: trunc_mean_def truncate_mean_div)

lemma sum_list_bound:
  "\<forall>y \<in> set ys. y < B \<Longrightarrow> sum_list ys + length ys \<le> length ys * B"
  by (induction ys) auto

lemma mean_bound:
  assumes "ys \<noteq> []" and "\<forall>y \<in> set ys. y < B"
  shows "sum_list ys div length ys < B"
proof -
  have "sum_list ys + length ys \<le> length ys * B"
    using assms(2) by (rule sum_list_bound)
  moreover have "0 < length ys" using assms(1) by simp
  ultimately have "sum_list ys < length ys * B"
    by linarith
  then have "sum_list ys < B * length ys"
    by (simp add: mult.commute)
  then show ?thesis
    by (rule less_mult_imp_div_less)
qed

lemma ndimage_label_cong:
  "shape2 a = shape2 b \<Longrightarrow> np_where a = np_where b \<Longrightarrow> ndimage_label a = ndimage_label b"
  by (simp add: ndimage_label_def)

lemma ndimage_label_shape: "ndimage_label m = (labeled, n) \<Longrightarrow> shape2 labeled = shape2 m"
  by (auto simp: ndimage_label_def Let_def)

lemma ndimage_label_item:
  "ndimage_label m = (labeled, n) \<Longrightarrow>
     item2 labeled r c = label_of 1 (components (np_where m) (np_where m)) (r, c)"
  by (auto simp: ndimage_label_def Let_def)

lemma ndimage_label_num:
  "ndimage_label m = (labeled, n) \<Longrightarrow> n = length (components (np_where m) (np_where m))"
  by (auto simp: ndimage_label_def Let_def)

lemma components_fg_union:
  "\<Union> (set ` set (components (np_where m) (np_where m))) = set (np_where m)"
  by (rule components_union) (simp_all add: distinct_np_where closed4_self)

lemma label_zero:
  assumes "ndimage_label m = (labeled, n)"
  shows "item2 labeled r c = 0 \<longleftrightarrow> (r, c) \<notin> set (np_where m)"
proof
  assume z: "item2 labeled r c = 0"
  show "(r, c) \<notin> set (np_where m)"
  proof
    assume "(r, c) \<in> set (np_where m)"
    then have "(r, c) \<in> \<Union> (set ` set (components (np_where m) (np_where m)))"
      unfolding components_fg_union .
    from label_of_in [OF this, of 1] z show False
      by (simp add: ndimage_label_item [OF assms])
  qed
next
  assume "(r, c) \<notin> set (np_where m)"
  then have "(r, c) \<notin> \<Union> (set ` set (components (np_where m) (np_where m)))"
    unfolding components_fg_union .
  then show "item2 labeled r c = 0"
    by (simp add: ndimage_label_item [OF assms] label_of_notin)
qed

lemma label_range:
  assumes "ndimage_label m = (labeled, n)"
  shows "item2 labeled r c \<le> n"
proof (cases "(r, c) \<in> set (np_where m)")
  case True
  then have "(r, c) \<in> \<Union> (set ` set (components (np_where m) (np_where m)))"
    unfolding components_fg_union .
  from label_of_in [OF this, of 1] show ?thesis
    by (simp add: ndimage_label_item [OF assms] ndimage_label_num [OF assms])
next
  case False
  then have "item2 labeled r c = 0"
    using label_zero [OF assms, of r c] by blast
  then show ?thesis by simp
qed

lemma label_class:
  assumes lab: "ndimage_label m = (labeled, n)"
    and c: "c \<in> set (np_where m)"
  shows "\<exists>k s. k < n \<and> item2 labeled (fst c) (snd c) = Suc k
            \<and> s \<in> set (np_where m)
            \<and> set (components (np_where m) (np_where m) ! k) = {d. (s, d) \<in> conn4 (np_where m)}
            \<and> (s, c) \<in> conn4 (np_where m)"
proof -
  let ?fg = "np_where m"
  let ?cs = "components ?fg ?fg"
  have "c \<in> \<Union> (set ` set ?cs)" using c unfolding components_fg_union .
  from label_of_in [OF this, of 1]
  have l1: "1 \<le> label_of 1 ?cs c" and l2: "label_of 1 ?cs c < 1 + length ?cs"
    and l3: "c \<in> set (?cs ! (label_of 1 ?cs c - 1))"
    by simp_all
  define k where "k = label_of 1 ?cs c - 1"
  have kn: "k < n" using l1 l2 by (simp add: k_def ndimage_label_num [OF lab])
  have lk: "item2 labeled (fst c) (snd c) = Suc k"
    using l1 by (simp add: k_def ndimage_label_item [OF lab])
  have "?cs ! k \<in> set ?cs"
    using kn by (simp add: ndimage_label_num [OF lab])
  from components_class [OF distinct_np_where closed4_self [OF distinct_np_where] this]
  obtain s where s: "s \<in> set ?fg" "set (?cs ! k) = {d. (s, d) \<in> conn4 ?fg}"
    by blast
  with l3 have "(s, c) \<in> conn4 ?fg" by (simp add: k_def)
  with kn lk s show ?thesis by blast
qed

lemma label_index:
  assumes lab: "ndimage_label m = (labeled, n)"
    and k: "k < n" and c: "c \<in> set (components (np_where m) (np_where m) ! k)"
  shows "item2 labeled (fst c) (snd c) = Suc k"
proof -
  let ?fg = "np_where m"
  let ?cs = "components ?fg ?fg"
  have len: "k < length ?cs" using k by (simp add: ndimage_label_num [OF lab])
  have "\<forall>j < k. c \<notin> set (?cs ! j)"
  proof (intro allI impI)
    fix j assume "j < k"
    from components_disjoint [OF distinct_np_where closed4_self [OF distinct_np_where] this len]
    show "c \<notin> set (?cs ! j)" using c by blast
  qed
  from label_of_first [OF len c this, of 1] show ?thesis
    by (simp add: ndimage_label_item [OF lab])
qed

lemma label_conn:
  assumes lab: "ndimage_label m = (labeled, n)"
    and c: "c \<in> set (np_where m)" and d: "d \<in> set (np_where m)"
  shows "item2 labeled (fst c) (snd c) = item2 labeled (fst d) (snd d)
           \<longleftrightarrow> (c, d) \<in> conn4 (np_where m)"
proof -
  let ?fg = "np_where m"
  from label_class [OF lab c] obtain k s where
    k: "k < n" "item2 labeled (fst c) (snd c) = Suc k"
      "set (components ?fg ?fg ! k) = {e. (s, e) \<in> conn4 ?fg}" "(s, c) \<in> conn4 ?fg"
    by blast
  from label_class [OF lab d] obtain k' s' where
    k': "k' < n" "item2 labeled (fst d) (snd d) = Suc k'"
      "set (components ?fg ?fg ! k') = {e. (s', e) \<in> conn4 ?fg}" "(s', d) \<in> conn4 ?fg"
    by blast
  show ?thesis
  proof
    assume "item2 labeled (fst c) (snd c) = item2 labeled (fst d) (snd d)"
    then have "k' = k" using k(2) k'(2) by simp
    then have "(s, d) \<in> conn4 ?fg" using k(3) k'(3,4) by auto
    with k(4) show "(c, d) \<in> conn4 ?fg"
      using conn4_sym conn4_trans by blast
  next
    assume "(c, d) \<in> conn4 ?fg"
    with k(4) have "(s, d) \<in> conn4 ?fg" by (rule conn4_trans)
    then have "d \<in> set (components ?fg ?fg ! k)" using k(3) by simp
    from label_index [OF lab k(1) this] show
      "item2 labeled (fst c) (snd c) = item2 labeled (fst d) (snd d)"
      using k(2) by simp
  qed
qed

lemma label_used:
  assumes lab: "ndimage_label m = (labeled, n)" and i: "1 \<le> i" "i \<le> n"
  shows "\<exists>c \<in> set (np_where m). item2 labeled (fst c) (snd c) = i"
proof -
  let ?fg = "np_where m"
  let ?cs = "components ?fg ?fg"
  obtain k where k: "i = Suc k" "k < n" using i by (cases i) auto
  then have "?cs ! k \<in> set ?cs"
    by (simp add: ndimage_label_num [OF lab])
  from components_class [OF distinct_np_where closed4_self [OF distinct_np_where] this]
  obtain s where s: "s \<in> set ?fg" "set (?cs ! k) = {d. (s, d) \<in> conn4 ?fg}"
    by blast
  then have "s \<in> set (?cs ! k)" by (simp add: conn4_refl)
  from label_index [OF lab k(2) this] s(1) k(1) show ?thesis by auto
qed

lemma component_cells_nonempty:
  assumes lab: "ndimage_label m = (labeled, n)" and i: "1 \<le> i" "i \<le> n"
  shows "component_cells labeled i \<noteq> []"
proof -
  from label_used [OF lab i] obtain c where
    c: "c \<in> set (np_where m)" "item2 labeled (fst c) (snd c) = i" by blast
  then have "c \<in> set (cells (shape2 labeled))"
    by (simp add: np_where_def ndimage_label_shape [OF lab])
  with c(2) have "c \<in> set (component_cells labeled i)"
    by (simp add: component_cells_def)
  then show ?thesis by auto
qed

lemma np_where_np_equal: "np_where (np_equal labeled i) = component_cells labeled i"
  by (simp add: np_where_def np_equal_def component_cells_def)

lemma component_cells_bounds:
  "c \<in> set (component_cells labeled i) \<Longrightarrow>
     fst c < fst (shape2 labeled) \<and> snd c < snd (shape2 labeled)"
  by (auto simp: component_cells_def set_cells)

lemma centroid_bounds:
  assumes "component_cells labeled i \<noteq> []"
  shows "trunc_mean (map fst (component_cells labeled i)) < fst (shape2 labeled)"
    and "trunc_mean (map snd (component_cells labeled i)) < snd (shape2 labeled)"
proof -
  let ?yx = "component_cells labeled i"
  have "map fst ?yx \<noteq> []" and "\<forall>y \<in> set (map fst ?yx). y < fst (shape2 labeled)"
    using assms component_cells_bounds [of _ labeled i] by auto
  then show "trunc_mean (map fst ?yx) < fst (shape2 labeled)"
    unfolding trunc_mean_div by (rule mean_bound)
  have "map snd ?yx \<noteq> []" and "\<forall>x \<in> set (map snd ?yx). x < snd (shape2 labeled)"
    using assms component_cells_bounds [of _ labeled i] by auto
  then show "trunc_mean (map snd ?yx) < snd (shape2 labeled)"
    unfolding trunc_mean_div by (rule mean_bound)
qed

lemma label_loop_step:
  assumes sh: "shape2 labeled = shape2 d"
    and agree: "\<And>r c. r < fst (shape2 d) \<Longrightarrow> c < snd (shape2 d) \<Longrightarrow> item2 d r c = item2 D r c"
    and ne: "component_cells labeled i \<noteq> []"
  shows "label_loop t d labeled (i # rest) events =
           label_loop t d labeled rest
             (events @ [centroid_event t D (component_cells labeled i)])"
proof -
  let ?yx = "component_cells labeled i"
  have fy: "map fst ?yx \<noteq> []" and fx: "map snd ?yx \<noteq> []"
    using ne by simp_all
  have cy: "py_int (np_mean (map real (map fst ?yx))) = Inr (int (trunc_mean (map fst ?yx)))"
    using py_int_mean [OF fy] by (simp add: trunc_mean_div)
  have cx: "py_int (np_mean (map real (map snd ?yx))) = Inr (int (trunc_mean (map snd ?yx)))"
    using py_int_mean [OF fx] by (simp add: trunc_mean_div)
  have by': "trunc_mean (map fst ?yx) < fst (shape2 d)"
    and bx: "trunc_mean (map snd ?yx) < snd (shape2 d)"
    using centroid_bounds [OF ne] by (simp_all add: sh)
  have get: "getitem2 d (int (trunc_mean (map fst ?yx))) (int (trunc_mean (map snd ?yx)))
      = Inr (item2 D (trunc_mean (map fst ?yx)) (trunc_mean (map snd ?yx)))"
    using by' bx by (simp add: getitem2_def normalize_index_def agree)
  show ?thesis
    using ne
    by (simp add: np_where_np_equal Let_def cy cx get centroid_event_def
        del: map_map)
qed

lemma label_loop_events:
  assumes sh: "shape2 labeled = shape2 d"
    and agree: "\<And>r c. r < fst (shape2 d) \<Longrightarrow> c < snd (shape2 d) \<Longrightarrow> item2 d r c = item2 D r c"
  shows "\<forall>i \<in> set ls. component_cells labeled i \<noteq> [] \<Longrightarrow>
     label_loop t d labeled ls events =
       Inr (events @ map (\<lambda>i. centroid_event t D (component_cells labeled i)) ls)"
proof (induction ls arbitrary: events)
  case Nil
  then show ?case by simp
next
  case (Cons i ls)
  have ne: "component_cells labeled i \<noteq> []" using Cons.prems by simp
  have "label_loop t d labeled (i # ls) events =
      label_loop t d labeled ls (events @ [centroid_event t D (component_cells labeled i)])"
    using sh agree ne by (rule label_loop_step)
  also have "\<dots> = Inr ((events @ [centroid_event t D (component_cells labeled i)])
      @ map (\<lambda>i. centroid_event t D (component_cells labeled i)) ls)"
    using Cons.prems by (intro Cons.IH) simp
  finally show ?case by simp
qed

lemma getitem3_ok:
  "t < fst (shape3 stack) \<Longrightarrow>
     getitem3 stack (int t) = Inr \<lparr>shape2 = snd (shape3 stack), item2 = item3 stack t\<rparr>"
  by (cases "shape3 stack") (auto simp: getitem3_def normalize_index_def)

lemma getitem3_fail:
  "fst (shape3 stack) = 0 \<Longrightarrow> getitem3 stack t = Inl IndexError"
  by (cases "shape3 stack") (auto simp: getitem3_def normalize_index_def)

lemma np_subtract_same:
  assumes "shape2 a = shape2 b"
  shows "\<exists>d. np_subtract dt a b = Inr d \<and> shape2 d = shape2 a
           \<and> (\<forall>r c. r < fst (shape2 a) \<longrightarrow> c < snd (shape2 a) \<longrightarrow>
                 item2 d r c = wrap dt (item2 a r c - item2 b r c))"
  using assms by (auto simp: np_subtract_def broadcast_dim_def)

lemma change_detector_stack:
  assumes t: "t < fst (shape3 stack)"
  shows "\<exists>d m. change_detector (dtype3 stack)
             \<lparr>shape2 = snd (shape3 stack), item2 = item3 stack (t - 1)\<rparr>
             \<lparr>shape2 = snd (shape3 stack), item2 = item3 stack t\<rparr>
             threshold (reference_std stack) = Inr (d, m)
           \<and> shape2 d = snd (shape3 stack)
           \<and> (\<forall>r c. r < fst (shape2 d) \<longrightarrow> c < snd (shape2 d) \<longrightarrow>
                 item2 d r c = item2 (diff_image stack t) r c)
           \<and> ndimage_label m = ndimage_label (candidate_mask stack threshold t)"
proof -
  let ?cur = "\<lparr>shape2 = snd (shape3 stack), item2 = item3 stack t\<rparr>"
  let ?prev = "\<lparr>shape2 = snd (shape3 stack), item2 = item3 stack (t - 1)\<rparr>"
  have "shape2 ?cur = shape2 ?prev" by simp
  from np_subtract_same [OF this, of "dtype3 stack"] obtain d where
    d: "np_subtract (dtype3 stack) ?cur ?prev = Inr d" "shape2 d = snd (shape3 stack)"
      "\<And>r c. r < fst (snd (shape3 stack)) \<Longrightarrow> c < snd (snd (shape3 stack)) \<Longrightarrow>
         item2 d r c = wrap (dtype3 stack) (item3 stack t r c - item3 stack (t - 1) r c)"
    by auto
  let ?m = "np_greater d (float_mul threshold (reference_std stack))"
  have cd: "change_detector (dtype3 stack) ?prev ?cur threshold (reference_std stack) = Inr (d, ?m)"
    using d(1) by (simp add: change_detector_def)
  have ag: "\<forall>r c. r < fst (shape2 d) \<longrightarrow> c < snd (shape2 d) \<longrightarrow>
      item2 d r c = item2 (diff_image stack t) r c"
    by (simp add: d(2,3) diff_image_def)
  have sh: "shape2 ?m = shape2 (candidate_mask stack threshold t)"
    by (simp add: np_greater_def candidate_mask_def d(2))
  have "np_where ?m = np_where (candidate_mask stack threshold t)"
  proof (rule np_where_cong [OF sh])
    fix r c assume "r < fst (shape2 ?m)" "c < snd (shape2 ?m)"
    then have "item2 d r c = item2 (diff_image stack t) r c"
      using ag by (simp add: np_greater_def)
    then show "item2 ?m r c = item2 (candidate_mask stack threshold t) r c"
      by (simp add: np_greater_def candidate_mask_def float_mul_def split: option.splits)
  qed
  with sh have "ndimage_label ?m = ndimage_label (candidate_mask stack threshold t)"
    by (rule ndimage_label_cong)
  with cd d(2) ag show ?thesis by blast
qed

lemma frame_loop_step:
  assumes t: "0 < t" "t < fst (shape3 stack)"
  shows "frame_loop stack threshold (reference_std stack) (t # ts) events =
           frame_loop stack threshold (reference_std stack) ts
             (events @ frame_events stack threshold t)"
proof -
  from change_detector_stack [OF t(2), of threshold] obtain d m where
    cd: "change_detector (dtype3 stack)
             \<lparr>shape2 = snd (shape3 stack), item2 = item3 stack (t - 1)\<rparr>
             \<lparr>shape2 = snd (shape3 stack), item2 = item3 stack t\<rparr>
             threshold (reference_std stack) = Inr (d, m)"
    and sh: "shape2 d = snd (shape3 stack)"
    and ag: "\<And>r c. r < fst (shape2 d) \<Longrightarrow> c < snd (shape2 d) \<Longrightarrow>
                 item2 d r c = item2 (diff_image stack t) r c"
    and lab: "ndimage_label m = ndimage_label (candidate_mask stack threshold t)"
    by blast
  obtain labeled n where ln: "ndimage_label (candidate_mask stack threshold t) = (labeled, n)"
    by (cases "ndimage_label (candidate_mask stack threshold t)")
  have shl: "shape2 labeled = shape2 d"
    using ndimage_label_shape [OF ln] sh by (simp add: candidate_mask_def)
  have ne: "\<forall>i \<in> set [1..<n + 1]. component_cells labeled i \<noteq> []"
    using component_cells_nonempty [OF ln] by auto
  have ll: "label_loop t d labeled [1..<n + 1] events =
      Inr (events @ map (\<lambda>i. centroid_event t (diff_image stack t) (component_cells labeled i))
          [1..<n + 1])"
    using shl ag ne by (rule label_loop_events)
  have g1: "getitem3 stack (int t) = Inr \<lparr>shape2 = snd (shape3 stack), item2 = item3 stack t\<rparr>"
    using t(2) by (rule getitem3_ok)
  have "getitem3 stack (int (t - 1))
      = Inr \<lparr>shape2 = snd (shape3 stack), item2 = item3 stack (t - 1)\<rparr>"
    using t(2) by (intro getitem3_ok) arith
  moreover have "int (t - 1) = int t - 1"
    using t(1) by simp
  ultimately have g2: "getitem3 stack (int t - 1)
      = Inr \<lparr>shape2 = snd (shape3 stack), item2 = item3 stack (t - 1)\<rparr>"
    by simp
  show ?thesis
    using g1 g2 cd lab ln ll by (simp add: frame_events_def del: upt_Suc)
qed

lemma frame_loop_events:
  "\<forall>t \<in> set ts. 0 < t \<and> t < fst (shape3 stack) \<Longrightarrow>
     frame_loop stack threshold (reference_std stack) ts events =
       Inr (events @ concat (map (frame_events stack threshold) ts))"
proof (induction ts arbitrary: events)
  case Nil
  then show ?case by simp
next
  case (Cons t ts)
  have "frame_loop stack threshold (reference_std stack) (t # ts) events =
      frame_loop stack threshold (reference_std stack) ts (events @ frame_events stack threshold t)"
    using Cons.prems by (intro frame_loop_step) simp_all
  also have "\<dots> = Inr ((events @ frame_events stack threshold t)
      @ concat (map (frame_events stack threshold) ts))"
    using Cons.prems by (intro Cons.IH) simp
  finally show ?case by simp
qed

lemma detect_events:
  "detect_insertions_slow stack threshold min_distance =
     (if fst (shape3 stack) = 0 then Inl IndexError
      else Inr (concat (map (frame_events stack threshold) [1..<fst (shape3 stack)])))"
proof (cases "fst (shape3 stack) = 0")
  case True
  then show ?thesis
    by (cases "shape3 stack") (auto simp: detect_insertions_slow_def getitem3_fail)
next
  case False
  then have g: "getitem3 stack 0 = Inr \<lparr>shape2 = snd (shape3 stack), item2 = item3 stack 0\<rparr>"
    using getitem3_ok [of 0 stack] by simp
  have "frame_loop stack threshold (reference_std stack) [1..<fst (shape3 stack)] [] =
      Inr ([] @ concat (map (frame_events stack threshold) [1..<fst (shape3 stack)]))"
    by (rule frame_loop_events) simp
  with False g show ?thesis
    by (cases "shape3 stack")
      (auto simp: detect_insertions_slow_def reference_std_def Let_def)
qed

lemma np_std_zeros: "vs \<noteq> [] \<Longrightarrow> \<forall>v \<in> set vs. v = 0 \<Longrightarrow> np_std vs = Some 0"
proof -
  assume ne: "vs \<noteq> []" and z: "\<forall>v \<in> set vs. v = 0"
  have s: "sum_list vs = 0" using z by (induction vs) auto
  have m: "np_mean vs = Some 0" using ne by (simp add: np_mean_def s)
  have "map (\<lambda>v. (abs (v - 0))\<^sup>2) vs = vs"
    using z by (induction vs) auto
  then show ?thesis
    using ne by (simp add: np_std_def m np_mean_def s)
qed

lemma np_std_nonneg: "np_std vs = Some s \<Longrightarrow> 0 \<le> s"
proof -
  assume a: "np_std vs = Some s"
  have "0 \<le> sum_list (map (\<lambda>v. (abs (v - m))\<^sup>2) vs)" for m :: real
    by (rule sum_list_nonneg) auto
  then have "0 \<le> sum_list (map (\<lambda>v. (abs (v - m))\<^sup>2) vs) / real (length vs)" for m :: real
    by simp
  with a show ?thesis
    by (auto simp: np_std_def np_mean_def split: if_splits)
qed

lemma detect_unfold:
  assumes "shape3 stack = (T, Y, X)" and "0 < T"
    and "np_std (map real_of_int (ravel \<lparr>shape2 = (Y, X), item2 = item3 stack 0\<rparr>)) = sd"
  shows "detect_insertions_slow stack threshold min_distance =
           frame_loop stack threshold sd [1..<T] []"
  using assms by (simp add: detect_insertions_slow_def getitem3_def normalize_index_def Let_def)

lemma ravel_zero_frame:
  assumes "\<And>r c. r < fst s \<Longrightarrow> c < snd s \<Longrightarrow> f r c = 0" and "0 < fst s" and "0 < snd s"
  shows "np_std (map real_of_int (ravel \<lparr>shape2 = s, item2 = f\<rparr>)) = Some 0"
proof (rule np_std_zeros)
  have "(0, 0) \<in> set (cells s)" using assms(2,3) by (simp add: set_cells)
  then have "cells s \<noteq> []" by auto
  then show "map real_of_int (ravel \<lparr>shape2 = s, item2 = f\<rparr>) \<noteq> []"
    by (simp add: ravel_def)
  show "\<forall>v \<in> set (map real_of_int (ravel \<lparr>shape2 = s, item2 = f\<rparr>)). v = 0"
    using assms(1) by (auto simp: ravel_def set_cells)
qed

lemma scenario_A_dtypes:
  "\<forall>dt \<in> set [UInt8, UInt16, UInt32, UInt64, Int8, Int16, Int32, Int64].
     frame_loop (scenario_A dt) 5 (Some 0) [1..<3] [] =
       Inr [\<lparr>ev_frame = 2, ev_y = 2, ev_x = 2, ev_intensity = 100\<rparr>]"
  by code_simp

lemma dtype_enum: "dt \<in> set [UInt8, UInt16, UInt32, UInt64, Int8, Int16, Int32, Int64]"
  by (cases dt) simp_all

lemma scenario_A_loop:
  "frame_loop (scenario_A dt) 5 (Some 0) [1..<3] [] =
     Inr [\<lparr>ev_frame = 2, ev_y = 2, ev_x = 2, ev_intensity = 100\<rparr>]"
  using scenario_A_dtypes dtype_enum by blast

lemma wrap_zero: "wrap dt 0 = 0"
  by (cases dt) (simp_all add: wrap_def)

lemma cells_empty: "fst s = 0 \<or> snd s = 0 \<Longrightarrow> cells s = []"
proof -
  assume "fst s = 0 \<or> snd s = 0"
  then have "set (cells s) = {}" by (auto simp: set_cells)
  then show ?thesis by simp
qed

lemma frame_events_empty:
  "np_where (candidate_mask stack threshold t) = [] \<Longrightarrow> frame_events stack threshold t = []"
  by (simp add: frame_events_def ndimage_label_def)

lemma concat_frame_events_empty:
  "\<forall>t \<in> set ts. frame_events stack threshold t = [] \<Longrightarrow>
     concat (map (frame_events stack threshold) ts) = []"
  by (induction ts) simp_all

lemma frame_events_frame:
  "e \<in> set (frame_events stack threshold t) \<Longrightarrow> ev_frame e = int t"
  by (auto simp: frame_events_def centroid_event_def split: prod.splits)

lemma concat_frame_events_frame:
  "e \<in> set (concat (map (frame_events stack threshold) ts)) \<Longrightarrow>
     \<exists>t \<in> set ts. ev_frame e = int t"
  using frame_events_frame by fastforce

lemma sorted_const: "\<forall>a \<in> set xs. a = k \<Longrightarrow> sorted (xs :: int list)"
  by (induction xs) auto

lemma sorted_frames:
  "sorted ts \<Longrightarrow> sorted (map ev_frame (concat (map (frame_events stack threshold) ts)))"
proof (induction ts)
  case Nil
  then show ?case by simp
next
  case (Cons t ts)
  have tl: "sorted (map ev_frame (concat (map (frame_events stack threshold) ts)))"
    using Cons by simp
  have hd: "sorted (map ev_frame (frame_events stack threshold t))"
    by (rule sorted_const [of _ "int t"]) (auto simp: frame_events_frame)
  have le: "a \<le> b"
    if "a \<in> set (map ev_frame (frame_events stack threshold t))"
      and "b \<in> set (map ev_frame (concat (map (frame_events stack threshold) ts)))" for a b
  proof -
    from that(1) have a: "a = int t" using frame_events_frame by auto
    from that(2) obtain e where "e \<in> set (concat (map (frame_events stack threshold) ts))"
      and "b = ev_frame e" by auto
    then obtain t' where "t' \<in> set ts" "b = int t'"
      using concat_frame_events_frame by blast
    with Cons.prems a show ?thesis by auto
  qed
  show ?case
    using hd tl le by (simp add: sorted_append)
qed

lemma frame_events_bounds:
  assumes "e \<in> set (frame_events stack threshold t)"
  shows "0 \<le> ev_y e \<and> ev_y e < int (fst (snd (shape3 stack)))
       \<and> 0 \<le> ev_x e \<and> ev_x e < int (snd (snd (shape3 stack)))"
proof -
  obtain labeled n where ln: "ndimage_label (candidate_mask stack threshold t) = (labeled, n)"
    by (cases "ndimage_label (candidate_mask stack threshold t)")
  from assms obtain i where i: "1 \<le> i" "i \<le> n"
    and e: "e = centroid_event t (diff_image stack t) (component_cells labeled i)"
    by (auto simp: frame_events_def ln)
  have sh: "shape2 labeled = snd (shape3 stack)"
    using ndimage_label_shape [OF ln] by (simp add: candidate_mask_def)
  have ne: "component_cells labeled i \<noteq> []"
    using ln i by (rule component_cells_nonempty)
  from centroid_bounds [OF ne] show ?thesis
    by (simp add: e centroid_event_def sh)
qed

lemma mask_empty_events:
  assumes "\<And>r c. r < fst (snd (shape3 stack)) \<Longrightarrow> c < snd (snd (shape3 stack)) \<Longrightarrow>
             \<not> item2 (candidate_mask stack threshold t) r c"
  shows "frame_events stack threshold t = []"
proof (rule frame_events_empty)
  have "\<forall>c \<in> set (cells (shape2 (candidate_mask stack threshold t))).
          \<not> item2 (candidate_mask stack threshold t) (fst c) (snd c)"
    using assms by (auto simp: set_cells candidate_mask_def)
  then show "np_where (candidate_mask stack threshold t) = []"
    by (simp add: np_where_def filter_empty_conv)
qed

lemma reference_std_nonneg: "reference_std stack = Some s \<Longrightarrow> 0 \<le> s"
  unfolding reference_std_def by (rule np_std_nonneg)

lemma filter_length_mono:
  "(\<And>x. x \<in> set xs \<Longrightarrow> P x \<Longrightarrow> Q x) \<Longrightarrow> length (filter P xs) \<le> length (filter Q xs)"
  by (induction xs) auto

lemma np_std_replicate_zero:
  "ravel a = replicate n 0 \<Longrightarrow> 0 < n \<Longrightarrow> np_std (map real_of_int (ravel a)) = Some 0"
  by (rule np_std_zeros) auto

lemma spikes_eval:
  "detect_insertions_slow spikes_stack 5 3 =
     Inr [\<lparr>ev_frame = 1, ev_y = 0, ev_x = 0, ev_intensity = 50\<rparr>,
          \<lparr>ev_frame = 1, ev_y = 2, ev_x = 3, ev_intensity = 50\<rparr>,
          \<lparr>ev_frame = 2, ev_y = 1, ev_x = 2, ev_intensity = 30\<rparr>]"
proof -
  have r: "ravel \<lparr>shape2 = (3, 4), item2 = item3 spikes_stack 0\<rparr> = replicate 12 0"
    by code_simp
  have "detect_insertions_slow spikes_stack 5 3 = frame_loop spikes_stack 5 (Some 0) [1..<3] []"
  proof (rule detect_unfold)
    show "shape3 spikes_stack = (3, 3, 4)" by (simp add: spikes_stack_def of_frames_def)
    show "0 < (3::nat)" by simp
    show "np_std (map real_of_int (ravel \<lparr>shape2 = (3, 4), item2 = item3 spikes_stack 0\<rparr>))
        = Some 0"
      using r by (rule np_std_replicate_zero) simp
  qed
  also have "\<dots> = Inr [\<lparr>ev_frame = 1, ev_y = 0, ev_x = 0, ev_intensity = 50\<rparr>,
          \<lparr>ev_frame = 1, ev_y = 2, ev_x = 3, ev_intensity = 50\<rparr>,
          \<lparr>ev_frame = 2, ev_y = 1, ev_x = 2, ev_intensity = 30\<rparr>]"
    by code_simp
  finally show ?thesis .
qed

lemma diagonal_eval:
  "detect_insertions_slow diagonal_stack 5 3 =
     Inr [\<lparr>ev_frame = 1, ev_y = 0, ev_x = 0, ev_intensity = 50\<rparr>,
          \<lparr>ev_frame = 1, ev_y = 1, ev_x = 1, ev_intensity = 50\<rparr>]"
proof -
  have r: "ravel \<lparr>shape2 = (2, 2), item2 = item3 diagonal_stack 0\<rparr> = replicate 4 0"
    by code_simp
  have "detect_insertions_slow diagonal_stack 5 3 =
      frame_loop diagonal_stack 5 (Some 0) [1..<2] []"
  proof (rule detect_unfold)
    show "shape3 diagonal_stack = (2, 2, 2)" by (simp add: diagonal_stack_def of_frames_def)
    show "0 < (2::nat)" by simp
    show "np_std (map real_of_int (ravel \<lparr>shape2 = (2, 2), item2 = item3 diagonal_stack 0\<rparr>))
        = Some 0"
      using r by (rule np_std_replicate_zero) simp
  qed
  also have "\<dots> = Inr [\<lparr>ev_frame = 1, ev_y = 0, ev_x = 0, ev_intensity = 50\<rparr>,
          \<lparr>ev_frame = 1, ev_y = 1, ev_x = 1, ev_intensity = 50\<rparr>]"
    by code_simp
  finally show ?thesis .
qed

lemma ring_eval:
  "detect_insertions_slow ring_stack 5 3 =
     Inr [\<lparr>ev_frame = 1, ev_y = 1, ev_x = 1, ev_intensity = 0\<rparr>]"
proof -
  have r: "ravel \<lparr>shape2 = (3, 3), item2 = item3 ring_stack 0\<rparr> = replicate 9 0"
    by code_simp
  have "detect_insertions_slow ring_stack 5 3 = frame_loop ring_stack 5 (Some 0) [1..<2] []"
  proof (rule detect_unfold)
    show "shape3 ring_stack = (2, 3, 3)" by (simp add: ring_stack_def of_frames_def)
    show "0 < (2::nat)" by simp
    show "np_std (map real_of_int (ravel \<lparr>shape2 = (3, 3), item2 = item3 ring_stack 0\<rparr>))
        = Some 0"
      using r by (rule np_std_replicate_zero) simp
  qed
  also have "\<dots> = Inr [\<lparr>ev_frame = 1, ev_y = 1, ev_x = 1, ev_intensity = 0\<rparr>]"
    by code_simp
  finally show ?thesis .
qed

lemma plateau_std:
  "np_std (map real_of_int (ravel \<lparr>shape2 = (1, 4), item2 = item3 plateau_stack 0\<rparr>)) = Some 1"
proof -
  have r: "ravel \<lparr>shape2 = (1, 4), item2 = item3 plateau_stack 0\<rparr> = [0, 2, 0, 2]"
    by code_simp
  show ?thesis
    unfolding r by (simp add: np_std_def np_mean_def)
qed

lemma plateau_eval_low:
  "detect_insertions_slow plateau_stack 4 3 =
     Inr [\<lparr>ev_frame = 1, ev_y = 0, ev_x = 1, ev_intensity = 5\<rparr>]"
proof -
  have "detect_insertions_slow plateau_stack 4 3 = frame_loop plateau_stack 4 (Some 1) [1..<2] []"
  proof (rule detect_unfold)
    show "shape3 plateau_stack = (2, 1, 4)" by (simp add: plateau_stack_def of_frames_def)
    show "0 < (2::nat)" by simp
    show "np_std (map real_of_int (ravel \<lparr>shape2 = (1, 4), item2 = item3 plateau_stack 0\<rparr>))
        = Some 1"
      by (rule plateau_std)
  qed
  also have "\<dots> = Inr [\<lparr>ev_frame = 1, ev_y = 0, ev_x = 1, ev_intensity = 5\<rparr>]"
    by code_simp
  finally show ?thesis .
qed

lemma plateau_eval_high:
  "detect_insertions_slow plateau_stack 7 3 =
     Inr [\<lparr>ev_frame = 1, ev_y = 0, ev_x = 0, ev_intensity = 10\<rparr>,
          \<lparr>ev_frame = 1, ev_y = 0, ev_x = 2, ev_intensity = 10\<rparr>]"
proof -
  have "detect_insertions_slow plateau_stack 7 3 = frame_loop plateau_stack 7 (Some 1) [1..<2] []"
  proof (rule detect_unfold)
    show "shape3 plateau_stack = (2, 1, 4)" by (simp add: plateau_stack_def of_frames_def)
    show "0 < (2::nat)" by simp
    show "np_std (map real_of_int (ravel \<lparr>shape2 = (1, 4), item2 = item3 plateau_stack 0\<rparr>))
        = Some 1"
      by (rule plateau_std)
  qed
  also have "\<dots> = Inr [\<lparr>ev_frame = 1, ev_y = 0, ev_x = 0, ev_intensity = 10\<rparr>,
          \<lparr>ev_frame = 1, ev_y = 0, ev_x = 2, ev_intensity = 10\<rparr>]"
    by code_simp
  finally show ?thesis .
qed

lemma empty_frames_eval: "detect_insertions_slow empty_frames_stack 5 3 = Inr []"
proof -
  have "detect_insertions_slow empty_frames_stack 5 3 =
      frame_loop empty_frames_stack 5 None [1..<2] []"
  proof (rule detect_unfold)
    show "shape3 empty_frames_stack = (2, 0, 3)"
      by (simp add: empty_frames_stack_def of_frames_def)
    show "0 < (2::nat)" by simp
    show "np_std (map real_of_int (ravel \<lparr>shape2 = (0, 3), item2 = item3 empty_frames_stack 0\<rparr>))
        = None"
      by (simp add: ravel_def cells_empty np_std_def np_mean_def)
  qed
  also have "\<dots> = Inr []"
    by code_simp
  finally show ?thesis .
qed

lemma no_frames_eval: "detect_insertions_slow no_frames_stack 5 3 = Inl IndexError"
  by (simp add: detect_insertions_slow_def no_frames_stack_def of_frames_def getitem3_def
      normalize_index_def)

section \<open>The claims\<close>

text \<open>
  C1, as amended. The labelling partitions the true cells of every mask into maximal
  connected components under edge adjacency (4-connectivity, the default structuring
  element of \<^verbatim>\<open>ndimage.label\<close>), not under 8-connectivity: a cell has label 0
  exactly when it is not a true cell of the mask, the labels in use are exactly
  \<open>1, \<dots>, n\<close>, two true cells carry the same label exactly when a path of
  edge-adjacent true cells joins them, and the loop over the labels appends exactly
  one event per label. Two true cells that share an edge therefore produce a single
  event; two that touch at a corner only, with no other path, produce two.
\<close>

theorem components_are_edge_connected:
  assumes "ndimage_label m = (labeled, n)"
  shows "(\<forall>c. (item2 labeled (fst c) (snd c) = 0) = (c \<notin> set (np_where m)))
    \<and> (\<forall>c. item2 labeled (fst c) (snd c) \<le> n)
    \<and> (\<forall>i. 1 \<le> i \<and> i \<le> n \<longrightarrow> (\<exists>c \<in> set (np_where m). item2 labeled (fst c) (snd c) = i))
    \<and> (\<forall>c \<in> set (np_where m). \<forall>d \<in> set (np_where m).
          (item2 labeled (fst c) (snd c) = item2 labeled (fst d) (snd d))
            = ((c, d) \<in> conn4 (np_where m)))
    \<and> (shape2 diff = shape2 m \<longrightarrow>
          (\<exists>new. label_loop t diff labeled [1..<n + 1] events = Inr (events @ new)
                 \<and> length new = n))"
proof (intro conjI allI impI ballI)
  fix c :: cell
  show "(item2 labeled (fst c) (snd c) = 0) = (c \<notin> set (np_where m))"
    using label_zero [OF assms, of "fst c" "snd c"] by simp
  show "item2 labeled (fst c) (snd c) \<le> n"
    using assms by (rule label_range)
next
  fix i assume "1 \<le> i \<and> i \<le> n"
  then show "\<exists>c \<in> set (np_where m). item2 labeled (fst c) (snd c) = i"
    using label_used [OF assms, of i] by simp
next
  fix c d assume "c \<in> set (np_where m)" "d \<in> set (np_where m)"
  with assms show "(item2 labeled (fst c) (snd c) = item2 labeled (fst d) (snd d))
      = ((c, d) \<in> conn4 (np_where m))"
    by (rule label_conn)
next
  assume sh: "shape2 diff = shape2 m"
  have shl: "shape2 labeled = shape2 diff"
    using ndimage_label_shape [OF assms] sh by simp
  have ne: "\<forall>i \<in> set [1..<n + 1]. component_cells labeled i \<noteq> []"
    using component_cells_nonempty [OF assms] by auto
  have "label_loop t diff labeled [1..<n + 1] events =
      Inr (events @ map (\<lambda>i. centroid_event t diff (component_cells labeled i)) [1..<n + 1])"
    using shl _ ne by (rule label_loop_events) simp
  then show "\<exists>new. label_loop t diff labeled [1..<n + 1] events = Inr (events @ new)
      \<and> length new = n"
    by simp
qed

text \<open>On the mask with true cells \<open>(0,0)\<close>, \<open>(0,1)\<close> and \<open>(1,2)\<close> the first two are
  connected and the last two, diagonal neighbours, are not.\<close>

theorem components_are_edge_connected_witness:
  "ndimage_label corner_mask = (fst (ndimage_label corner_mask), snd (ndimage_label corner_mask))
   \<and> np_where corner_mask = [(0, 0), (0, 1), (1, 2)]
   \<and> ((0, 0), (0, 1)) \<in> conn4 (np_where corner_mask)
   \<and> ((0, 1), (1, 2)) \<notin> conn4 (np_where corner_mask)"
proof -
  have eq: "ndimage_label corner_mask =
      (fst (ndimage_label corner_mask), snd (ndimage_label corner_mask))"
    by simp
  have fg: "np_where corner_mask = [(0, 0), (0, 1), (1, 2)]"
    by code_simp
  have l00: "item2 (fst (ndimage_label corner_mask)) 0 0 = 1"
    and l01: "item2 (fst (ndimage_label corner_mask)) 0 1 = 1"
    and l12: "item2 (fst (ndimage_label corner_mask)) 1 2 = 2"
    by code_simp+
  have conn: "\<forall>c \<in> set (np_where corner_mask). \<forall>d \<in> set (np_where corner_mask).
      (item2 (fst (ndimage_label corner_mask)) (fst c) (snd c)
         = item2 (fst (ndimage_label corner_mask)) (fst d) (snd d))
       = ((c, d) \<in> conn4 (np_where corner_mask))"
    using components_are_edge_connected [OF eq] by blast
  have m: "(0, 0) \<in> set (np_where corner_mask)" "(0, 1) \<in> set (np_where corner_mask)"
    "(1, 2) \<in> set (np_where corner_mask)"
    by (simp_all add: fg)
  have "(item2 (fst (ndimage_label corner_mask)) (fst (0::nat, 0::nat)) (snd (0::nat, 0::nat))
         = item2 (fst (ndimage_label corner_mask)) (fst (0::nat, 1::nat)) (snd (0::nat, 1::nat)))
       = (((0, 0), (0, 1)) \<in> conn4 (np_where corner_mask))"
    using conn m(1,2) by blast
  then have a: "((0, 0), (0, 1)) \<in> conn4 (np_where corner_mask)"
    using l00 l01 by simp
  have "(item2 (fst (ndimage_label corner_mask)) (fst (0::nat, 1::nat)) (snd (0::nat, 1::nat))
         = item2 (fst (ndimage_label corner_mask)) (fst (1::nat, 2::nat)) (snd (1::nat, 2::nat)))
       = (((0, 1), (1, 2)) \<in> conn4 (np_where corner_mask))"
    using conn m(2,3) by blast
  then have b: "((0, 1), (1, 2)) \<notin> conn4 (np_where corner_mask)"
    using l01 l12 by simp
  note facts = eq fg a b
  show ?thesis
    by (intro conjI) (rule facts)+
qed

text \<open>The statement with 8-connectivity fails: frame 1 of this stack rises by 50 at
  \<open>(0,0)\<close> and \<open>(1,1)\<close> only, two diagonal neighbours, and detection returns two
  events, one per pixel.\<close>

theorem diagonal_neighbours_counterexample:
  "detect_insertions_slow diagonal_stack 5 3 =
     Inr [\<lparr>ev_frame = 1, ev_y = 0, ev_x = 0, ev_intensity = 50\<rparr>,
          \<lparr>ev_frame = 1, ev_y = 1, ev_x = 1, ev_intensity = 50\<rparr>]"
  by (rule diagonal_eval)

text \<open>
  C2, as amended. For a fixed pair of frames and a fixed reference standard deviation,
  the candidate mask is monotonically non-increasing in the threshold multiplier: for
  \<open>a \<le> b\<close> the difference image is the same, every candidate of \<open>b\<close> is a candidate
  of \<open>a\<close>, and the number of candidate cells does not grow. (The number of events is
  the number of components of the mask, which can grow when the mask shrinks.)
\<close>

theorem candidate_mask_shrinks:
  assumes le: "a \<le> b"
    and ma: "change_detector dt prev cur a (np_std vs) = Inr (da, ma)"
    and mb: "change_detector dt prev cur b (np_std vs) = Inr (db, mb)"
  shows "db = da \<and> shape2 mb = shape2 ma
    \<and> (\<forall>r c. item2 mb r c \<longrightarrow> item2 ma r c)
    \<and> set (np_where mb) \<subseteq> set (np_where ma)
    \<and> length (np_where mb) \<le> length (np_where ma)"
proof -
  from ma obtain d where d: "np_subtract dt cur prev = Inr d"
    and da: "da = d" and ma': "ma = np_greater d (float_mul a (np_std vs))"
    by (auto simp: change_detector_def split: sum.splits)
  from mb d have db: "db = d" and mb': "mb = np_greater d (float_mul b (np_std vs))"
    by (auto simp: change_detector_def)
  have imp: "item2 mb r c \<Longrightarrow> item2 ma r c" for r c
  proof (cases "np_std vs")
    case None
    then show "item2 mb r c \<Longrightarrow> item2 ma r c"
      by (simp add: ma' mb' np_greater_def float_mul_def)
  next
    case (Some s)
    then have "0 \<le> s" by (rule np_std_nonneg)
    with le have "a * s \<le> b * s" by (rule mult_right_mono)
    then show "item2 mb r c \<Longrightarrow> item2 ma r c"
      by (simp add: ma' mb' np_greater_def float_mul_def Some)
  qed
  have sh: "shape2 mb = shape2 ma"
    by (simp add: ma' mb' np_greater_def)
  have sub: "set (np_where mb) \<subseteq> set (np_where ma)"
    using imp by (auto simp: np_where_def sh)
  have len: "length (np_where mb) \<le> length (np_where ma)"
    unfolding np_where_def sh by (rule filter_length_mono) (rule imp)
  from da db sh imp sub len show ?thesis by blast
qed

text \<open>With difference image \<open>10, 20, 30, 40\<close> and standard deviation 1, multiplier 35
  keeps one candidate and multiplier 15 keeps three.\<close>

theorem candidate_mask_shrinks_witness:
  "(15::real) \<le> 35
   \<and> set (np_where (snd (projr
         (change_detector UInt16 dark_2x2 frame_2x2 35 (np_std [0, 2, 0, 2])))))
     \<subseteq> set (np_where (snd (projr
         (change_detector UInt16 dark_2x2 frame_2x2 15 (np_std [0, 2, 0, 2])))))
   \<and> np_where (snd (projr
         (change_detector UInt16 dark_2x2 frame_2x2 35 (np_std [0, 2, 0, 2])))) = [(1, 1)]
   \<and> np_where (snd (projr
         (change_detector UInt16 dark_2x2 frame_2x2 15 (np_std [0, 2, 0, 2]))))
       = [(0, 1), (1, 0), (1, 1)]"
proof -
  let ?lo = "change_detector UInt16 dark_2x2 frame_2x2 15 (np_std [0, 2, 0, 2])"
  let ?hi = "change_detector UInt16 dark_2x2 frame_2x2 35 (np_std [0, 2, 0, 2])"
  have le: "(15::real) \<le> 35" by simp
  have sd: "np_std [0, 2, 0, 2] = Some 1"
    by (simp add: np_std_def np_mean_def)
  have lo: "?lo = Inr (fst (projr ?lo), snd (projr ?lo))"
    by (simp add: change_detector_def np_subtract_def broadcast_dim_def dark_2x2_def
        frame_2x2_def)
  have hi: "?hi = Inr (fst (projr ?hi), snd (projr ?hi))"
    by (simp add: change_detector_def np_subtract_def broadcast_dim_def dark_2x2_def
        frame_2x2_def)
  have sub: "set (np_where (snd (projr ?hi))) \<subseteq> set (np_where (snd (projr ?lo)))"
    using candidate_mask_shrinks [OF le lo hi] by blast
  have "np_where (snd (projr (change_detector UInt16 dark_2x2 frame_2x2 35 (Some 1))))
      = [(1, 1)]"
    by code_simp
  then have whi: "np_where (snd (projr ?hi)) = [(1, 1)]"
    by (simp only: sd)
  have "np_where (snd (projr (change_detector UInt16 dark_2x2 frame_2x2 15 (Some 1))))
      = [(0, 1), (1, 0), (1, 1)]"
    by code_simp
  then have wlo: "np_where (snd (projr ?lo)) = [(0, 1), (1, 0), (1, 1)]"
    by (simp only: sd)
  note facts = le sub whi wlo
  show ?thesis
    by (intro conjI) (rule facts)+
qed

text \<open>The number of events is not monotone: the reference frame has standard
  deviation 1 and the difference image is \<open>10, 5, 10, 0\<close>; multiplier 4 gives one
  component of three cells, multiplier 7 splits it into two components.\<close>

theorem threshold_monotonicity_counterexample:
  "(4::real) \<le> 7
   \<and> detect_insertions_slow plateau_stack 4 3 =
       Inr [\<lparr>ev_frame = 1, ev_y = 0, ev_x = 1, ev_intensity = 5\<rparr>]
   \<and> detect_insertions_slow plateau_stack 7 3 =
       Inr [\<lparr>ev_frame = 1, ev_y = 0, ev_x = 0, ev_intensity = 10\<rparr>,
            \<lparr>ev_frame = 1, ev_y = 0, ev_x = 2, ev_intensity = 10\<rparr>]"
  using plateau_eval_low plateau_eval_high by simp

text \<open>
  C3. For the 3-frame 5 by 5 stack whose frames 0 and 1 are all zeros and whose frame
  2 is zero except the value 100 at \<open>(2, 2)\<close>, detection with threshold multiplier
  5.0 returns exactly one event: frame 2, y 2, x 2, intensity 100. This holds for
  every integer dtype of the stack and every value of the minimum distance.
\<close>

theorem scenario_A_single_event:
  "detect_insertions_slow (scenario_A dt) 5 min_distance =
     Inr [\<lparr>ev_frame = 2, ev_y = 2, ev_x = 2, ev_intensity = 100\<rparr>]"
proof -
  have "detect_insertions_slow (scenario_A dt) 5 min_distance =
      frame_loop (scenario_A dt) 5 (Some 0) [1..<3] []"
  proof (rule detect_unfold)
    show "shape3 (scenario_A dt) = (3, 5, 5)" by (simp add: scenario_A_def)
    show "0 < (3::nat)" by simp
    show "np_std (map real_of_int (ravel \<lparr>shape2 = (5, 5), item2 = item3 (scenario_A dt) 0\<rparr>))
        = Some 0"
      by (rule ravel_zero_frame) (simp_all add: scenario_A_def)
  qed
  then show ?thesis by (simp only: scenario_A_loop)
qed

text \<open>
  C4, as amended. The function has no InvalidInput error and validates nothing. On a
  stack with no frame (\<open>T = 0\<close>) it fails with IndexError, raised by \<^verbatim>\<open>stack[0]\<close>. On
  a stack with at least one frame whose frames have no pixel (\<open>H \<times> W = 0\<close>) it does not
  fail: the reference standard deviation is NaN and the result is the empty list of
  events.
\<close>

theorem degenerate_stack_outcomes:
  "(fst (shape3 stack) = 0 \<longrightarrow>
      detect_insertions_slow stack threshold min_distance = Inl IndexError)
   \<and> (0 < fst (shape3 stack)
        \<and> fst (snd (shape3 stack)) * snd (snd (shape3 stack)) = 0 \<longrightarrow>
      reference_std stack = None
      \<and> detect_insertions_slow stack threshold min_distance = Inr [])"
proof (intro conjI impI)
  assume "fst (shape3 stack) = 0"
  then show "detect_insertions_slow stack threshold min_distance = Inl IndexError"
    by (simp add: detect_events)
next
  assume a: "0 < fst (shape3 stack)
      \<and> fst (snd (shape3 stack)) * snd (snd (shape3 stack)) = 0"
  then have c: "cells (snd (shape3 stack)) = []"
    by (intro cells_empty) simp
  show "reference_std stack = None"
    by (simp add: reference_std_def ravel_def c np_std_def np_mean_def)
  have "frame_events stack threshold t = []" for t
    by (rule frame_events_empty) (simp add: np_where_def candidate_mask_def c)
  then have "concat (map (frame_events stack threshold) [1..<fst (shape3 stack)]) = []"
    by (intro concat_frame_events_empty) simp
  with a show "detect_insertions_slow stack threshold min_distance = Inr []"
    by (simp add: detect_events)
qed

text \<open>Both cases at concrete stacks: shape \<open>(0, 5, 5)\<close> and shape \<open>(2, 0, 3)\<close>.\<close>

theorem degenerate_stack_outcomes_witness:
  "fst (shape3 no_frames_stack) = 0
   \<and> detect_insertions_slow no_frames_stack 5 3 = Inl IndexError
   \<and> 0 < fst (shape3 empty_frames_stack)
   \<and> fst (snd (shape3 empty_frames_stack)) * snd (snd (shape3 empty_frames_stack)) = 0
   \<and> reference_std empty_frames_stack = None
   \<and> detect_insertions_slow empty_frames_stack 5 3 = Inr []"
proof -
  have t0: "fst (shape3 no_frames_stack) = 0"
    by (simp add: no_frames_stack_def of_frames_def)
  have t2: "0 < fst (shape3 empty_frames_stack)"
    and hw: "fst (snd (shape3 empty_frames_stack)) * snd (snd (shape3 empty_frames_stack)) = 0"
    by (simp_all add: empty_frames_stack_def of_frames_def)
  have a: "detect_insertions_slow no_frames_stack 5 3 = Inl IndexError"
    using degenerate_stack_outcomes [of no_frames_stack 5 3] t0 by blast
  have b: "reference_std empty_frames_stack = None"
    and c: "detect_insertions_slow empty_frames_stack 5 3 = Inr []"
    using degenerate_stack_outcomes [of empty_frames_stack 5 3] t2 hw by blast+
  note facts = t0 a t2 hw b c
  show ?thesis
    by (intro conjI) (rule facts)+
qed

text \<open>The statement that frames without pixels make the run fail is false: on a
  stack of shape \<open>(2, 0, 3)\<close> detection returns normally, with no event.\<close>

theorem degenerate_stack_counterexample:
  "fst (snd (shape3 empty_frames_stack)) * snd (snd (shape3 empty_frames_stack)) = 0
   \<and> detect_insertions_slow empty_frames_stack 5 3 = Inr []"
  using empty_frames_eval by (simp add: empty_frames_stack_def of_frames_def)

text \<open>
  C6. For every stack with at least one frame in which each frame equals its
  predecessor, and every strictly positive threshold multiplier, detection returns
  the empty list of events. (A stack with no frame is rejected with IndexError before
  any frame is compared; that case belongs to C4.)
\<close>

theorem identical_frames_no_events:
  assumes frames: "0 < fst (shape3 stack)"
    and same: "\<And>t r c. 0 < t \<Longrightarrow> t < fst (shape3 stack) \<Longrightarrow> r < fst (snd (shape3 stack)) \<Longrightarrow>
                 c < snd (snd (shape3 stack)) \<Longrightarrow> item3 stack t r c = item3 stack (t - 1) r c"
    and pos: "0 < threshold"
  shows "detect_insertions_slow stack threshold min_distance = Inr []"
proof -
  have "frame_events stack threshold t = []" if t: "t \<in> set [1..<fst (shape3 stack)]" for t
  proof (rule mask_empty_events)
    fix r c assume rc: "r < fst (snd (shape3 stack))" "c < snd (snd (shape3 stack))"
    have "item2 (diff_image stack t) r c = 0"
      using same [of t r c] t rc by (simp add: diff_image_def wrap_zero)
    moreover have "\<not> threshold * s < 0" if "reference_std stack = Some s" for s
      using reference_std_nonneg [OF that] pos by (simp add: not_less)
    ultimately show "\<not> item2 (candidate_mask stack threshold t) r c"
      by (simp add: candidate_mask_def split: option.splits)
  qed
  then have "concat (map (frame_events stack threshold) [1..<fst (shape3 stack)]) = []"
    by (intro concat_frame_events_empty) blast
  with frames show ?thesis
    by (simp add: detect_events)
qed

text \<open>Three identical 2 by 2 frames, multiplier 5.\<close>

theorem identical_frames_no_events_witness:
  "0 < fst (shape3 static_stack) \<and> (0::real) < 5
   \<and> detect_insertions_slow static_stack 5 3 = Inr []"
proof -
  have f: "0 < fst (shape3 static_stack)"
    by (simp add: static_stack_def of_frames_def)
  have s: "item3 static_stack t r c = item3 static_stack (t - 1) r c"
    if "0 < t" "t < fst (shape3 static_stack)" for t r c
  proof -
    from that have "t = 1 \<or> t = 2"
      by (auto simp: static_stack_def of_frames_def)
    then show ?thesis
      by (auto simp: static_stack_def of_frames_def)
  qed
  have p: "(0::real) < 5" by simp
  from identical_frames_no_events [of static_stack 5 3, OF f s p] f show ?thesis
    by simp
qed

text \<open>
  C7. For every stack and configuration, the frame fields of the returned events are
  non-decreasing in output order and no event has frame 0. Detection returns a list
  whenever the stack has at least one frame.
\<close>

theorem frames_ascending_from_one:
  "(0 < fst (shape3 stack) \<longrightarrow>
      (\<exists>evs. detect_insertions_slow stack threshold min_distance = Inr evs))
   \<and> (\<forall>evs. detect_insertions_slow stack threshold min_distance = Inr evs \<longrightarrow>
         sorted (map ev_frame evs) \<and> (\<forall>e \<in> set evs. ev_frame e \<noteq> 0))"
proof (intro conjI allI impI ballI)
  assume "0 < fst (shape3 stack)"
  then show "\<exists>evs. detect_insertions_slow stack threshold min_distance = Inr evs"
    by (simp add: detect_events)
next
  fix evs assume "detect_insertions_slow stack threshold min_distance = Inr evs"
  then have evs: "evs = concat (map (frame_events stack threshold) [1..<fst (shape3 stack)])"
    by (simp add: detect_events split: if_splits)
  show "sorted (map ev_frame evs)"
    unfolding evs by (rule sorted_frames) simp
  fix e assume "e \<in> set evs"
  then obtain t where "t \<in> set [1..<fst (shape3 stack)]" "ev_frame e = int t"
    unfolding evs using concat_frame_events_frame by blast
  then show "ev_frame e \<noteq> 0" by simp
qed

text \<open>A stack with two events in frame 1 and one in frame 2.\<close>

theorem frames_ascending_from_one_witness:
  "0 < fst (shape3 spikes_stack)
   \<and> detect_insertions_slow spikes_stack 5 3 =
       Inr [\<lparr>ev_frame = 1, ev_y = 0, ev_x = 0, ev_intensity = 50\<rparr>,
            \<lparr>ev_frame = 1, ev_y = 2, ev_x = 3, ev_intensity = 50\<rparr>,
            \<lparr>ev_frame = 2, ev_y = 1, ev_x = 2, ev_intensity = 30\<rparr>]
   \<and> sorted [1, 1, 2 :: int] \<and> 0 \<notin> set [1, 1, 2 :: int]"
  using frames_ascending_from_one [of spikes_stack 5 3] spikes_eval
  by (simp add: spikes_stack_def of_frames_def)

text \<open>
  C8. For every stack with at least one frame, the returned list is the concatenation,
  in frame order, of the events of each frame pair; a frame pair has one event per
  connected component, in label order; and for each component the event's y and x are
  the arithmetic means of the row indices and of the column indices of its cells, each
  truncated toward zero, and its intensity is the value of the difference image at
  exactly that coordinate, whether or not that cell belongs to the component.
\<close>

theorem events_are_truncated_centroids:
  assumes "0 < fst (shape3 stack)"
  shows "detect_insertions_slow stack threshold min_distance =
       Inr (concat (map (frame_events stack threshold) [1..<fst (shape3 stack)]))
     \<and> (\<forall>t. length (frame_events stack threshold t)
              = snd (ndimage_label (candidate_mask stack threshold t)))
     \<and> (\<forall>t. \<forall>e \<in> set (frame_events stack threshold t).
          \<exists>i. 1 \<le> i \<and> i \<le> snd (ndimage_label (candidate_mask stack threshold t))
            \<and> ev_frame e = int t
            \<and> ev_y e = truncate_toward_zero (arithmetic_mean (map fst
                  (component_cells (fst (ndimage_label (candidate_mask stack threshold t))) i)))
            \<and> ev_x e = truncate_toward_zero (arithmetic_mean (map snd
                  (component_cells (fst (ndimage_label (candidate_mask stack threshold t))) i)))
            \<and> ev_intensity e = item2 (diff_image stack t) (nat (ev_y e)) (nat (ev_x e)))"
proof (intro conjI allI ballI)
  show "detect_insertions_slow stack threshold min_distance =
       Inr (concat (map (frame_events stack threshold) [1..<fst (shape3 stack)]))"
    using assms by (simp add: detect_events)
next
  fix t
  show "length (frame_events stack threshold t)
      = snd (ndimage_label (candidate_mask stack threshold t))"
    by (simp add: frame_events_def case_prod_beta)
next
  fix t e assume e: "e \<in> set (frame_events stack threshold t)"
  let ?L = "fst (ndimage_label (candidate_mask stack threshold t))"
  let ?n = "snd (ndimage_label (candidate_mask stack threshold t))"
  from e obtain i where i: "1 \<le> i" "i \<le> ?n"
    and ev: "e = centroid_event t (diff_image stack t) (component_cells ?L i)"
    by (auto simp: frame_events_def case_prod_beta)
  have y: "ev_y e = truncate_toward_zero (arithmetic_mean (map fst (component_cells ?L i)))"
    by (simp add: ev centroid_event_def trunc_mean_def truncate_mean_div)
  have x: "ev_x e = truncate_toward_zero (arithmetic_mean (map snd (component_cells ?L i)))"
    by (simp add: ev centroid_event_def trunc_mean_def truncate_mean_div)
  have v: "ev_intensity e = item2 (diff_image stack t) (nat (ev_y e)) (nat (ev_x e))"
    by (simp add: ev centroid_event_def)
  have f: "ev_frame e = int t"
    by (simp add: ev centroid_event_def)
  from i f y x v show "\<exists>i. 1 \<le> i \<and> i \<le> ?n \<and> ev_frame e = int t
      \<and> ev_y e = truncate_toward_zero (arithmetic_mean (map fst (component_cells ?L i)))
      \<and> ev_x e = truncate_toward_zero (arithmetic_mean (map snd (component_cells ?L i)))
      \<and> ev_intensity e = item2 (diff_image stack t) (nat (ev_y e)) (nat (ev_x e))"
    by blast
qed

text \<open>A ring of eight candidate cells: the truncated centroid is the centre
  \<open>(1, 1)\<close>, which is not a candidate, and the reported intensity is the difference
  there, 0.\<close>

theorem events_are_truncated_centroids_witness:
  "0 < fst (shape3 ring_stack)
   \<and> concat (map (frame_events ring_stack 5) [1..<fst (shape3 ring_stack)]) =
       [\<lparr>ev_frame = 1, ev_y = 1, ev_x = 1, ev_intensity = 0\<rparr>]
   \<and> (1, 1) \<notin> set (np_where (candidate_mask ring_stack 5 1))"
proof -
  have f: "0 < fst (shape3 ring_stack)"
    by (simp add: ring_stack_def of_frames_def)
  have "\<not> item2 (candidate_mask ring_stack 5 1) 1 1"
    by (simp add: candidate_mask_def diff_image_def ring_stack_def of_frames_def wrap_def
        reference_std_nonneg not_less split: option.splits)
  then have "(1, 1) \<notin> set (np_where (candidate_mask ring_stack 5 1))"
    by (simp add: set_np_where)
  then have m: "(1, 1) \<notin> set (np_where (candidate_mask ring_stack 5 1))" .
  have "detect_insertions_slow ring_stack 5 3 =
      Inr (concat (map (frame_events ring_stack 5) [1..<fst (shape3 ring_stack)]))"
    using events_are_truncated_centroids [OF f, of 5 3] by blast
  then have e: "concat (map (frame_events ring_stack 5) [1..<fst (shape3 ring_stack)]) =
      [\<lparr>ev_frame = 1, ev_y = 1, ev_x = 1, ev_intensity = 0\<rparr>]"
    using ring_eval by simp
  note facts = f e m
  show ?thesis
    by (intro conjI) (rule facts)+
qed

text \<open>
  C9. The minimum-distance argument has no influence on the result: for every stack
  and threshold, any two values of it give the same outcome, the same error or the
  same list of events.
\<close>

theorem min_distance_unused:
  "detect_insertions_slow stack threshold d1 = detect_insertions_slow stack threshold d2"
  by (simp add: detect_insertions_slow_def)

text \<open>
  C10. For every stack of shape \<open>(T, Y, X)\<close>, every returned event satisfies
  \<open>0 \<le> y < Y\<close> and \<open>0 \<le> x < X\<close>, so that sampling the difference image at
  \<open>(y, x)\<close> never raises IndexError: detection returns a list whenever the stack has
  at least one frame. Every label from 1 to the number of features has at least one
  cell, so the branch that skips an empty component is never taken.
\<close>

theorem events_inside_frame:
  "(0 < fst (shape3 stack) \<longrightarrow>
      (\<exists>evs. detect_insertions_slow stack threshold min_distance = Inr evs))
   \<and> (\<forall>evs. detect_insertions_slow stack threshold min_distance = Inr evs \<longrightarrow>
         (\<forall>e \<in> set evs.
            0 \<le> ev_y e \<and> ev_y e < int (fst (snd (shape3 stack)))
          \<and> 0 \<le> ev_x e \<and> ev_x e < int (snd (snd (shape3 stack)))))
   \<and> (ndimage_label m = (labeled, n) \<and> 1 \<le> i \<and> i \<le> n \<longrightarrow>
         np_where (np_equal labeled i) \<noteq> [])"
proof (intro conjI allI impI ballI)
  assume "0 < fst (shape3 stack)"
  then show "\<exists>evs. detect_insertions_slow stack threshold min_distance = Inr evs"
    by (simp add: detect_events)
next
  fix evs e
  assume "detect_insertions_slow stack threshold min_distance = Inr evs" and e: "e \<in> set evs"
  then have "evs = concat (map (frame_events stack threshold) [1..<fst (shape3 stack)])"
    by (simp add: detect_events split: if_splits)
  with e obtain t where "e \<in> set (frame_events stack threshold t)"
    by auto
  from frame_events_bounds [OF this]
  show "0 \<le> ev_y e" "ev_y e < int (fst (snd (shape3 stack)))"
    "0 \<le> ev_x e" "ev_x e < int (snd (snd (shape3 stack)))"
    by simp_all
next
  assume "ndimage_label m = (labeled, n) \<and> 1 \<le> i \<and> i \<le> n"
  then show "np_where (np_equal labeled i) \<noteq> []"
    using component_cells_nonempty [of m labeled n i] by (simp add: np_where_np_equal)
qed

text \<open>The ring stack for the bounds, the corner mask for label 2.\<close>

theorem events_inside_frame_witness:
  "0 < fst (shape3 ring_stack)
   \<and> detect_insertions_slow ring_stack 5 3 =
       Inr [\<lparr>ev_frame = 1, ev_y = 1, ev_x = 1, ev_intensity = 0\<rparr>]
   \<and> (0::int) \<le> 1 \<and> (1::int) < int (fst (snd (shape3 ring_stack)))
   \<and> (1::int) < int (snd (snd (shape3 ring_stack)))
   \<and> ndimage_label corner_mask = (fst (ndimage_label corner_mask), snd (ndimage_label corner_mask))
   \<and> 2 \<le> snd (ndimage_label corner_mask)
   \<and> np_where (np_equal (fst (ndimage_label corner_mask)) 2) \<noteq> []"
proof -
  have f: "0 < fst (shape3 ring_stack)"
    and y: "(1::int) < int (fst (snd (shape3 ring_stack)))"
    and x: "(1::int) < int (snd (snd (shape3 ring_stack)))"
    by (simp_all add: ring_stack_def of_frames_def)
  have z: "(0::int) \<le> 1" by simp
  have eq: "ndimage_label corner_mask =
      (fst (ndimage_label corner_mask), snd (ndimage_label corner_mask))"
    by simp
  have "snd (ndimage_label corner_mask) = 2"
    by code_simp
  then have n: "2 \<le> snd (ndimage_label corner_mask)"
    by simp
  have "np_where (np_equal (fst (ndimage_label corner_mask)) 2) \<noteq> []"
    using events_inside_frame [of ring_stack 5 3 corner_mask "fst (ndimage_label corner_mask)"
        "snd (ndimage_label corner_mask)" 2] eq n
    by simp
  note facts = f ring_eval z y x eq n this
  show ?thesis
    by (intro conjI) (rule facts)+
qed

end
